theory Spec2Isabelle
  imports Main
begin

section \<open>Values and strings of the collector\<close>

text \<open>
  The collector (\<^verbatim>\<open>collector/__main__.py\<close>) moves Python values between three outside
  parties: the Event Registry client library, the standard library's JSON codec and the
  file system. The records it handles are the values below. A string is a list of
  characters with code points below 256; a number is a Python \<^verbatim>\<open>int\<close> (floats are left out
  of the model); \<open>PObject\<close> stands for any object the JSON encoder has no rule for (a set,
  a bytes object, an instance of a class). A dictionary is the list of its items in
  insertion order, with string keys.
\<close>

datatype pyval =
    PNone
  | PBool bool
  | PInt int
  | PStr string
  | PList "pyval list"
  | PDict "(string \<times> pyval) list"
  | PObject nat

datatype error =
    Exception string
  | FileNotFoundError
  | FileExistsError
  | NotADirectoryError
  | IsADirectoryError
  | TypeError
  | KeyError
  | AttributeError
  | JSONDecodeError
  | OutsideModel

abbreviation LF :: char where "LF \<equiv> CHR 0x0A"
abbreviation CR :: char where "CR \<equiv> CHR 0x0D"
abbreviation DQUOTE :: char where "DQUOTE \<equiv> CHR 0x22"
abbreviation BACKSLASH :: char where "BACKSLASH \<equiv> CHR 0x5C"

text \<open>\<^verbatim>\<open>str.isspace\<close> on one character, for code points below 256.\<close>

definition isspace :: "char \<Rightarrow> bool" where
  "isspace c = (let n = (of_char c :: nat) in
     (9 \<le> n \<and> n \<le> 13) \<or> (28 \<le> n \<and> n \<le> 32) \<or> n = 133 \<or> n = 160)"

text \<open>\<^verbatim>\<open>str.strip()\<close>: whitespace is removed at both ends.\<close>

definition strip :: "string \<Rightarrow> string" where
  "strip s = rev (dropWhile isspace (rev (dropWhile isspace s)))"

section \<open>The class URI\<close>

text \<open>
  \<^verbatim>\<open>URI.__init__(keyword, uri)\<close> stores both arguments; \<^verbatim>\<open>uri\<close> is what the service's
  lookup returned: a string, or \<^verbatim>\<open>None\<close> for a label it does not know.
\<close>

record URI =
  keyword :: string
  uri :: "string option"

definition get_keyword :: "URI \<Rightarrow> string" where
  "get_keyword u = keyword u"

definition get_uri :: "URI \<Rightarrow> string option" where
  "get_uri u = uri u"

text \<open>
  \<^verbatim>\<open>__eq__\<close> is \<^verbatim>\<open>return self.__uri == other\<close>: the stored identifier is compared with
  the other operand itself. The operator \<^verbatim>\<open>==\<close> asks the left operand's type first, then,
  on \<^verbatim>\<open>NotImplemented\<close>, the right operand's type with the operands swapped, and falls
  back to identity. The operands that occur are strings, \<^verbatim>\<open>None\<close> and URI instances.
\<close>

datatype operand = OStr string | ONone | OInstance URI

datatype rich_result = NotImplemented | Answer bool

fun field_operand :: "string option \<Rightarrow> operand" where
  "field_operand None = ONone"
| "field_operand (Some s) = OStr s"

text \<open>\<^verbatim>\<open>str.__eq__\<close> and the \<^verbatim>\<open>object.__eq__\<close> that \<^verbatim>\<open>None\<close> inherits.\<close>

fun builtin_eq :: "operand \<Rightarrow> operand \<Rightarrow> rich_result" where
  "builtin_eq (OStr s) (OStr t) = Answer (s = t)"
| "builtin_eq ONone ONone = Answer True"
| "builtin_eq _ _ = NotImplemented"

fun instances :: "operand \<Rightarrow> nat" where
  "instances (OInstance u) = 1"
| "instances _ = 0"

function py_eq :: "operand \<Rightarrow> operand \<Rightarrow> bool" where
  "py_eq a b =
     (case a of
        OInstance u \<Rightarrow> py_eq (field_operand (uri u)) b
      | _ \<Rightarrow>
        (case builtin_eq a b of
           Answer r \<Rightarrow> r
         | NotImplemented \<Rightarrow>
           (case b of
              OInstance v \<Rightarrow> py_eq (field_operand (uri v)) a
            | _ \<Rightarrow>
              (case builtin_eq b a of
                 Answer r \<Rightarrow> r
               | NotImplemented \<Rightarrow> False))))"
  by pat_completeness auto
termination
  by (relation "measure (\<lambda>(a, b). 2 * instances a + 2 * instances b + (case a of OInstance u \<Rightarrow> 1 | _ \<Rightarrow> 0))")
     (auto split: operand.splits elim: field_operand.elims)

declare py_eq.simps [simp del]

definition URI_eq :: "URI \<Rightarrow> operand \<Rightarrow> bool" where
  "URI_eq self other = py_eq (field_operand (uri self)) other"

definition URI_ne :: "URI \<Rightarrow> operand \<Rightarrow> bool" where
  "URI_ne self other = (\<not> py_eq (OInstance self) other)"

section \<open>The Event Registry client\<close>

text \<open>
  The client library \<^verbatim>\<open>eventregistry\<close> is not part of the repository. The model takes
  from it what the collector uses: the three label lookups, the constructors
  \<^verbatim>\<open>QueryItems.AND\<close> and \<^verbatim>\<open>QueryItems.OR\<close>, the three query classes with their keyword
  arguments, and \<^verbatim>\<open>execQuery\<close>. A lookup answers with an identifier or with \<^verbatim>\<open>None\<close>.
  \<^verbatim>\<open>execQuery\<close> hands back an iterator; the model identifies it with the list of records
  it yields when it is first run through.
\<close>

datatype 'a query_items = QueryItems_AND "'a list" | QueryItems_OR "'a list"

record query =
  q_keywords :: "string query_items option"
  conceptUri :: "string option query_items option"
  categoryUri :: "string option query_items option"
  sourceUri :: "string option query_items option"
  dateStart :: pyval
  dateEnd :: pyval
  lang :: "string query_items option"

datatype query_class =
    QueryArticlesIter
  | QueryEventsIter
  | QueryEventArticlesIter pyval

record request =
  query_class :: query_class
  query :: query
  sortBy :: string
  sortByAsc :: bool
  maxItems :: int

record event_registry =
  getConceptUri :: "string \<Rightarrow> string option"
  getCategoryUri :: "string \<Rightarrow> string option"
  getSourceUri :: "string \<Rightarrow> string option"
  execQuery :: "request \<Rightarrow> pyval list"

section \<open>The file system\<close>

text \<open>
  What the collector sees of the operating system: which paths name a directory or a
  regular file, and the text of each file. A path is identified with its normal form
  (\<^verbatim>\<open>os.path.normpath\<close>, POSIX flavour): there are no symbolic links. The current
  directory and the root always exist. The second component of the state is the list of
  queries executed so far on the remote service, oldest first.
\<close>

datatype node = Directory | RegularFile string

record world =
  entries :: "string \<Rightarrow> node option"
  executed :: "request list"

abbreviation SEP :: char where "SEP \<equiv> CHR ''/''"

text \<open>\<^verbatim>\<open>str.split(os.sep)\<close> and \<^verbatim>\<open>os.sep.join\<close>.\<close>

fun split_sep :: "string \<Rightarrow> string list" where
  "split_sep [] = [[]]"
| "split_sep (c # cs) =
     (if c = SEP then [] # split_sep cs
      else (case split_sep cs of [] \<Rightarrow> [[c]] | l # ls \<Rightarrow> (c # l) # ls))"

fun join_sep :: "string list \<Rightarrow> string" where
  "join_sep [] = []"
| "join_sep [p] = p"
| "join_sep (p # ps) = p @ [SEP] @ join_sep ps"

text \<open>One turn of the loop over the components in \<^verbatim>\<open>posixpath.normpath\<close>.\<close>

definition normpath_step :: "nat \<Rightarrow> string list \<Rightarrow> string \<Rightarrow> string list" where
  "normpath_step initial_slashes new_comps c =
     (if c = [] \<or> c = ''.'' then new_comps
      else if c \<noteq> ''..'' \<or> (initial_slashes = 0 \<and> new_comps = [])
                \<or> (new_comps \<noteq> [] \<and> last new_comps = ''..'')
        then new_comps @ [c]
      else if new_comps \<noteq> [] then butlast new_comps
      else new_comps)"

definition normpath :: "string \<Rightarrow> string" where
  "normpath path =
     (if path = [] then ''.''
      else
        (let initial_slashes =
               (if take 1 path = ''/'' then
                  (if take 2 path = ''//'' \<and> take 3 path \<noteq> ''///'' then 2 else 1)
                else 0);
             comps = foldl (normpath_step initial_slashes) [] (split_sep path);
             joined = replicate initial_slashes SEP @ join_sep comps
         in if joined = [] then ''.'' else joined))"

text \<open>\<^verbatim>\<open>os.path.split\<close>: the part up to the last separator, and the part after it.\<close>

definition os_path_split :: "string \<Rightarrow> string \<times> string" where
  "os_path_split p =
     (let tail = rev (takeWhile (\<lambda>c. c \<noteq> SEP) (rev p));
          head = rev (dropWhile (\<lambda>c. c \<noteq> SEP) (rev p))
      in (if head \<noteq> [] \<and> (\<exists>c \<in> set head. c \<noteq> SEP)
          then rev (dropWhile (\<lambda>c. c = SEP) (rev head)) else head, tail))"

text \<open>What a path names: nothing, a directory or a regular file (\<^verbatim>\<open>os.stat\<close>).\<close>

definition stat :: "world \<Rightarrow> string \<Rightarrow> node option" where
  "stat w p =
     (if p = [] then None
      else (let n = normpath p
            in if n = ''.'' \<or> n = ''/'' \<or> n = ''//'' then Some Directory else entries w n))"

definition os_path_exists :: "world \<Rightarrow> string \<Rightarrow> bool" where
  "os_path_exists w p = (stat w p \<noteq> None)"

definition os_path_isfile :: "world \<Rightarrow> string \<Rightarrow> bool" where
  "os_path_isfile w p = (case stat w p of Some (RegularFile c) \<Rightarrow> True | _ \<Rightarrow> False)"

definition os_path_isdir :: "world \<Rightarrow> string \<Rightarrow> bool" where
  "os_path_isdir w p = (stat w p = Some Directory)"

text \<open>The directory an entry lives in; the empty string is the current directory.\<close>

definition parent_of :: "string \<Rightarrow> string" where
  "parent_of p = fst (os_path_split (normpath p))"

definition parent_ready :: "world \<Rightarrow> string \<Rightarrow> error option" where
  "parent_ready w p =
     (if parent_of p = [] then None
      else (case stat w (parent_of p) of
              None \<Rightarrow> Some FileNotFoundError
            | Some (RegularFile c) \<Rightarrow> Some NotADirectoryError
            | Some Directory \<Rightarrow> None))"

text \<open>\<^verbatim>\<open>os.mkdir\<close>: one new directory, in a directory that exists.\<close>

definition os_mkdir :: "string \<Rightarrow> world \<Rightarrow> (error + unit) \<times> world" where
  "os_mkdir name w =
     (if name = [] then (Inl FileNotFoundError, w)
      else if stat w name \<noteq> None then (Inl FileExistsError, w)
      else (case parent_ready w name of
              Some e \<Rightarrow> (Inl e, w)
            | None \<Rightarrow> (Inr (), w\<lparr>entries := (entries w)(normpath name \<mapsto> Directory)\<rparr>)))"

text \<open>
  \<^verbatim>\<open>os.makedirs\<close> (with \<^verbatim>\<open>exist_ok=False\<close>): the missing directories above \<^verbatim>\<open>name\<close> are
  made first, then \<^verbatim>\<open>name\<close> itself.
\<close>

definition makedirs_split :: "string \<Rightarrow> string \<times> string" where
  "makedirs_split name =
     (if snd (os_path_split name) = [] then os_path_split (fst (os_path_split name))
      else os_path_split name)"

lemma os_path_split_length:
  "length (fst (os_path_split p)) + length (snd (os_path_split p)) \<le> length p"
proof -
  let ?t = "takeWhile (\<lambda>c. c \<noteq> SEP) (rev p)"
  let ?h = "dropWhile (\<lambda>c. c \<noteq> SEP) (rev p)"
  have "length (?t @ ?h) = length (rev p)"
    by (simp only: takeWhile_dropWhile_id)
  then have "length ?t + length ?h = length p"
    by (simp only: length_append length_rev)
  moreover have "length (dropWhile (\<lambda>c. c = SEP) (rev (rev ?h))) \<le> length ?h"
    using length_dropWhile_le [of "\<lambda>c. c = SEP" ?h] by simp
  ultimately show ?thesis
    by (simp add: os_path_split_def Let_def)
qed

lemma makedirs_split_shorter:
  "snd (makedirs_split name) \<noteq> [] \<Longrightarrow> length (fst (makedirs_split name)) < length name"
proof -
  assume t: "snd (makedirs_split name) \<noteq> []"
  have a: "length (fst (os_path_split name)) + length (snd (os_path_split name)) \<le> length name"
    by (rule os_path_split_length)
  have b: "length (fst (os_path_split (fst (os_path_split name))))
             + length (snd (os_path_split (fst (os_path_split name))))
           \<le> length (fst (os_path_split name))"
    by (rule os_path_split_length)
  show ?thesis
  proof (cases "snd (os_path_split name) = []")
    case True
    with t have "0 < length (snd (os_path_split (fst (os_path_split name))))"
      by (simp add: makedirs_split_def)
    with a b have "length (fst (os_path_split (fst (os_path_split name)))) < length name"
      by arith
    with True show ?thesis
      by (simp add: makedirs_split_def)
  next
    case False
    then have "0 < length (snd (os_path_split name))"
      by simp
    with a have "length (fst (os_path_split name)) < length name"
      by arith
    with False show ?thesis
      by (simp add: makedirs_split_def)
  qed
qed

function os_makedirs :: "string \<Rightarrow> world \<Rightarrow> (error + unit) \<times> world" where
  "os_makedirs name w =
     (if fst (makedirs_split name) \<noteq> [] \<and> snd (makedirs_split name) \<noteq> []
         \<and> \<not> os_path_exists w (fst (makedirs_split name))
      then
        (case os_makedirs (fst (makedirs_split name)) w of
           (Inl e, w1) \<Rightarrow>
             (if e \<noteq> FileExistsError then (Inl e, w1)
              else if snd (makedirs_split name) = ''.'' then (Inr (), w1)
              else os_mkdir name w1)
         | (Inr u, w1) \<Rightarrow>
             (if snd (makedirs_split name) = ''.'' then (Inr (), w1)
              else os_mkdir name w1))
      else os_mkdir name w)"
  by pat_completeness auto
termination
  by (relation "measure (\<lambda>(name, w). length name)") (auto simp: makedirs_split_shorter)

declare os_makedirs.simps [simp del]

section \<open>Helper functions of the collector\<close>

text \<open>
  \<^verbatim>\<open>create_folder_directory(path)\<close>: the path is normalised and split at the separator,
  the last component is deleted, the rest is joined again, and the directory of that name
  is created when nothing of that name exists.
\<close>

definition create_folder_directory :: "string \<Rightarrow> world \<Rightarrow> (error + unit) \<times> world" where
  "create_folder_directory path w =
     (let normpath' = normpath path;
          split_path = butlast (split_sep normpath');
          directory = join_sep split_path
      in if \<not> os_path_exists w directory then os_makedirs directory w else (Inr (), w))"

section \<open>The JSON codec of the standard library\<close>

subsection \<open>Writing: \<^verbatim>\<open>json.dump\<close>\<close>

text \<open>
  \<^verbatim>\<open>json.dump(obj, fp)\<close> runs the encoder as a generator and writes every chunk to the
  file as soon as it is produced. When the encoder meets an object it has no rule for it
  raises \<^verbatim>\<open>TypeError\<close>; the chunks written up to that point stay in the file. The
  encoder's result is modelled by a pair: whether it ran to the end, and the text of the
  chunks it produced. The default separators are \<^verbatim>\<open>', '\<close> and \<^verbatim>\<open>': '\<close>, and every
  character outside the printable ASCII range is escaped (\<^verbatim>\<open>ensure_ascii\<close>).
\<close>

definition hexdigit :: "nat \<Rightarrow> char" where
  "hexdigit n = ''0123456789abcdef'' ! n"

definition escape_char :: "char \<Rightarrow> string" where
  "escape_char c =
     (if c = DQUOTE then [BACKSLASH, DQUOTE]
      else if c = BACKSLASH then [BACKSLASH, BACKSLASH]
      else if c = LF then [BACKSLASH, CHR ''n'']
      else if c = CR then [BACKSLASH, CHR ''r'']
      else if c = CHR 0x09 then [BACKSLASH, CHR ''t'']
      else if c = CHR 0x0C then [BACKSLASH, CHR ''f'']
      else if c = CHR 0x08 then [BACKSLASH, CHR ''b'']
      else if 32 \<le> (of_char c :: nat) \<and> (of_char c :: nat) \<le> 126 then [c]
      else [BACKSLASH, CHR ''u'', CHR ''0'', CHR ''0'',
            hexdigit ((of_char c :: nat) div 16), hexdigit ((of_char c :: nat) mod 16)])"

definition encode_basestring_ascii :: "string \<Rightarrow> string" where
  "encode_basestring_ascii s = DQUOTE # concat (map escape_char s) @ [DQUOTE]"

definition digit_char :: "nat \<Rightarrow> char" where
  "digit_char n = char_of (48 + n)"

fun nat_repr :: "nat \<Rightarrow> string" where
  "nat_repr n = (if n < 10 then [digit_char n] else nat_repr (n div 10) @ [digit_char (n mod 10)])"

declare nat_repr.simps [simp del]

definition int_repr :: "int \<Rightarrow> string" where
  "int_repr i = (if i < 0 then CHR ''-'' # nat_repr (nat (- i)) else nat_repr (nat i))"

fun iterencode :: "pyval \<Rightarrow> bool \<times> string"
  and iterencode_list :: "pyval list \<Rightarrow> bool \<times> string"
  and iterencode_dict :: "(string \<times> pyval) list \<Rightarrow> bool \<times> string"
where
  "iterencode PNone = (True, ''null'')"
| "iterencode (PBool b) = (True, if b then ''true'' else ''false'')"
| "iterencode (PInt i) = (True, int_repr i)"
| "iterencode (PStr s) = (True, encode_basestring_ascii s)"
| "iterencode (PList xs) =
     (if xs = [] then (True, ''[]'')
      else (case iterencode_list xs of
              (done, t) \<Rightarrow> (done, ''['' @ t @ (if done then '']'' else []))))"
| "iterencode (PDict kvs) =
     (if kvs = [] then (True, ''{}'')
      else (case iterencode_dict kvs of
              (done, t) \<Rightarrow> (done, ''{'' @ t @ (if done then ''}'' else []))))"
| "iterencode (PObject n) = (False, [])"
| "iterencode_list [] = (True, [])"
| "iterencode_list (x # xs) =
     (case iterencode x of
        (done, t) \<Rightarrow>
          (if \<not> done then (False, t)
           else if xs = [] then (True, t)
           else (case iterencode_list xs of (done', u) \<Rightarrow> (done', t @ '', '' @ u))))"
| "iterencode_dict [] = (True, [])"
| "iterencode_dict (kv # kvs) =
     (case iterencode (snd kv) of
        (done, t) \<Rightarrow>
          (if \<not> done then (False, encode_basestring_ascii (fst kv) @ '': '' @ t)
           else if kvs = [] then (True, encode_basestring_ascii (fst kv) @ '': '' @ t)
           else (case iterencode_dict kvs of
                   (done', u) \<Rightarrow>
                     (done', encode_basestring_ascii (fst kv) @ '': '' @ t @ '', '' @ u))))"

text \<open>
  The file object \<^verbatim>\<open>fp\<close> is open for appending: it is modelled by the text of the file,
  and a write adds to its end.
\<close>

definition json_dump :: "pyval \<Rightarrow> string \<Rightarrow> (error + unit) \<times> string" where
  "json_dump obj fp =
     (case iterencode obj of
        (done, t) \<Rightarrow> (if done then Inr () else Inl TypeError, fp @ t))"

subsection \<open>Reading: \<^verbatim>\<open>json.loads\<close>\<close>

text \<open>
  The decoder, for texts whose numbers are integers and whose \<^verbatim>\<open>\u\<close> escapes stay below
  256. On a text with a float, with \<^verbatim>\<open>NaN\<close> or \<^verbatim>\<open>Infinity\<close>, or with a larger escape the
  model answers \<open>OutsideModel\<close>: it does not say what Python does there. Everywhere else
  the answer is Python's: the value, or \<^verbatim>\<open>JSONDecodeError\<close>. An object is returned as the
  list of its members in the order of the text; \<open>py_getitem\<close> below looks a key up from
  the end, since a later member replaces an earlier one of the same name. The first
  argument of the three mutually recursive functions bounds the depth of the calls;
  \<^verbatim>\<open>json_loads\<close> starts with the length of the text plus one, which is enough for every
  text the encoder writes (lemma \<open>decode_encoded\<close> below).
\<close>

definition is_json_ws :: "char \<Rightarrow> bool" where
  "is_json_ws c = (c = CHR '' '' \<or> c = CHR 0x09 \<or> c = LF \<or> c = CR)"

definition skip_ws :: "string \<Rightarrow> string" where
  "skip_ws s = dropWhile is_json_ws s"

definition is_digit :: "char \<Rightarrow> bool" where
  "is_digit c = (48 \<le> (of_char c :: nat) \<and> (of_char c :: nat) \<le> 57)"

definition hexval :: "char \<Rightarrow> nat option" where
  "hexval c =
     (let n = (of_char c :: nat)
      in if 48 \<le> n \<and> n \<le> 57 then Some (n - 48)
         else if 97 \<le> n \<and> n \<le> 102 then Some (n - 87)
         else if 65 \<le> n \<and> n \<le> 70 then Some (n - 55)
         else None)"

definition unescape :: "char \<Rightarrow> char option" where
  "unescape e =
     (if e = DQUOTE then Some DQUOTE
      else if e = BACKSLASH then Some BACKSLASH
      else if e = SEP then Some SEP
      else if e = CHR ''b'' then Some (CHR 0x08)
      else if e = CHR ''f'' then Some (CHR 0x0C)
      else if e = CHR ''n'' then Some LF
      else if e = CHR ''r'' then Some CR
      else if e = CHR ''t'' then Some (CHR 0x09)
      else None)"

text \<open>\<^verbatim>\<open>scanstring\<close>, strict mode, from the character after the opening quote.\<close>

fun scanstring :: "string \<Rightarrow> error + (string \<times> string)" where
  "scanstring [] = Inl JSONDecodeError"
| "scanstring (c # cs) =
     (if c = DQUOTE then Inr ([], cs)
      else if c = BACKSLASH then
        (case cs of
           [] \<Rightarrow> Inl JSONDecodeError
         | e # es \<Rightarrow>
             (if e = CHR ''u'' then
                (case es of
                   h1 # h2 # h3 # h4 # r \<Rightarrow>
                     (case (hexval h1, hexval h2, hexval h3, hexval h4) of
                        (Some n1, Some n2, Some n3, Some n4) \<Rightarrow>
                          (if n1 = 0 \<and> n2 = 0 then
                             (case scanstring r of
                                Inl err \<Rightarrow> Inl err
                              | Inr (t, rest) \<Rightarrow> Inr (char_of (16 * n3 + n4) # t, rest))
                           else Inl OutsideModel)
                      | _ \<Rightarrow> Inl JSONDecodeError)
                 | _ \<Rightarrow> Inl JSONDecodeError)
              else
                (case unescape e of
                   None \<Rightarrow> Inl JSONDecodeError
                 | Some d \<Rightarrow>
                     (case scanstring es of
                        Inl err \<Rightarrow> Inl err
                      | Inr (t, rest) \<Rightarrow> Inr (d # t, rest)))))
      else if (of_char c :: nat) < 32 then Inl JSONDecodeError
      else
        (case scanstring cs of
           Inl err \<Rightarrow> Inl err
         | Inr (t, rest) \<Rightarrow> Inr (c # t, rest)))"

definition digits_value :: "string \<Rightarrow> nat" where
  "digits_value ds = foldl (\<lambda>a c. 10 * a + ((of_char c :: nat) - 48)) 0 ds"

text \<open>Whether a fraction or an exponent follows the integer part of a number.\<close>

definition float_follows :: "string \<Rightarrow> bool" where
  "float_follows r =
     (case r of
        [] \<Rightarrow> False
      | c # r1 \<Rightarrow>
          (if c = CHR ''.'' then (case r1 of [] \<Rightarrow> False | d # r2 \<Rightarrow> is_digit d)
           else if c = CHR ''e'' \<or> c = CHR ''E'' then
             (case r1 of
                [] \<Rightarrow> False
              | d # r2 \<Rightarrow>
                  is_digit d
                  \<or> ((d = CHR ''+'' \<or> d = CHR ''-'')
                      \<and> (case r2 of [] \<Rightarrow> False | d2 # r3 \<Rightarrow> is_digit d2)))
           else False))"

definition match_number :: "string \<Rightarrow> error + (pyval \<times> string)" where
  "match_number s =
     (let negative = (take 1 s = ''-'');
          body = (if negative then drop 1 s else s)
      in (case body of
            [] \<Rightarrow> Inl JSONDecodeError
          | d # ds \<Rightarrow>
              (if \<not> is_digit d then Inl JSONDecodeError
               else
                 (let integer = (if d = CHR ''0'' then [d] else d # takeWhile is_digit ds);
                      rest = drop (length integer) body
                  in if float_follows rest then Inl OutsideModel
                     else Inr (PInt (if negative then - int (digits_value integer)
                                     else int (digits_value integer)), rest)))))"

fun parse_value :: "nat \<Rightarrow> string \<Rightarrow> error + (pyval \<times> string)"
  and parse_array :: "nat \<Rightarrow> string \<Rightarrow> error + (pyval list \<times> string)"
  and parse_object :: "nat \<Rightarrow> string \<Rightarrow> error + ((string \<times> pyval) list \<times> string)"
where
  "parse_value 0 s = Inl OutsideModel"
| "parse_value (Suc n) s =
     (case s of
        [] \<Rightarrow> Inl JSONDecodeError
      | c # cs \<Rightarrow>
          (if c = DQUOTE then
             (case scanstring cs of
                Inl e \<Rightarrow> Inl e
              | Inr (t, r) \<Rightarrow> Inr (PStr t, r))
           else if c = CHR ''{'' then
             (case skip_ws cs of
                [] \<Rightarrow> Inl JSONDecodeError
              | d # r \<Rightarrow>
                  (if d = CHR ''}'' then Inr (PDict [], r)
                   else (case parse_object n (d # r) of
                           Inl e \<Rightarrow> Inl e
                         | Inr (kvs, r') \<Rightarrow> Inr (PDict kvs, r'))))
           else if c = CHR ''['' then
             (case skip_ws cs of
                [] \<Rightarrow> Inl JSONDecodeError
              | d # r \<Rightarrow>
                  (if d = CHR '']'' then Inr (PList [], r)
                   else (case parse_array n (d # r) of
                           Inl e \<Rightarrow> Inl e
                         | Inr (vs, r') \<Rightarrow> Inr (PList vs, r'))))
           else if take 4 s = ''null'' then Inr (PNone, drop 4 s)
           else if take 4 s = ''true'' then Inr (PBool True, drop 4 s)
           else if take 5 s = ''false'' then Inr (PBool False, drop 5 s)
           else if take 3 s = ''NaN'' \<or> take 8 s = ''Infinity'' \<or> take 9 s = ''-Infinity''
             then Inl OutsideModel
           else match_number s))"
| "parse_array 0 s = Inl OutsideModel"
| "parse_array (Suc n) s =
     (case parse_value n s of
        Inl e \<Rightarrow> Inl e
      | Inr (v, r) \<Rightarrow>
          (case skip_ws r of
             [] \<Rightarrow> Inl JSONDecodeError
           | d # r1 \<Rightarrow>
               (if d = CHR '']'' then Inr ([v], r1)
                else if d = CHR '','' then
                  (case parse_array n (skip_ws r1) of
                     Inl e \<Rightarrow> Inl e
                   | Inr (vs, r2) \<Rightarrow> Inr (v # vs, r2))
                else Inl JSONDecodeError)))"
| "parse_object 0 s = Inl OutsideModel"
| "parse_object (Suc n) s =
     (case s of
        [] \<Rightarrow> Inl JSONDecodeError
      | q # s1 \<Rightarrow>
          (if q \<noteq> DQUOTE then Inl JSONDecodeError
           else
             (case scanstring s1 of
                Inl e \<Rightarrow> Inl e
              | Inr (key, r) \<Rightarrow>
                  (case skip_ws r of
                     [] \<Rightarrow> Inl JSONDecodeError
                   | colon # r1 \<Rightarrow>
                       (if colon \<noteq> CHR '':'' then Inl JSONDecodeError
                        else
                          (case parse_value n (skip_ws r1) of
                             Inl e \<Rightarrow> Inl e
                           | Inr (v, r2) \<Rightarrow>
                               (case skip_ws r2 of
                                  [] \<Rightarrow> Inl JSONDecodeError
                                | d # r3 \<Rightarrow>
                                    (if d = CHR ''}'' then Inr ([(key, v)], r3)
                                     else if d = CHR '','' then
                                       (case parse_object n (skip_ws r3) of
                                          Inl e \<Rightarrow> Inl e
                                        | Inr (kvs, r4) \<Rightarrow> Inr ((key, v) # kvs, r4))
                                     else Inl JSONDecodeError))))))))"

definition json_loads :: "string \<Rightarrow> error + pyval" where
  "json_loads s =
     (case parse_value (Suc (length s)) (skip_ws s) of
        Inl e \<Rightarrow> Inl e
      | Inr (v, r) \<Rightarrow> (if skip_ws r = [] then Inr v else Inl JSONDecodeError))"

text \<open>\<^verbatim>\<open>obj[key]\<close> for a string key, and \<^verbatim>\<open>obj.strip()\<close>.\<close>

fun py_getitem :: "pyval \<Rightarrow> string \<Rightarrow> error + pyval" where
  "py_getitem (PDict kvs) k =
     (case map_of (rev kvs) k of None \<Rightarrow> Inl KeyError | Some v \<Rightarrow> Inr v)"
| "py_getitem (PObject n) k = Inl OutsideModel"
| "py_getitem v k = Inl TypeError"

fun py_strip :: "pyval \<Rightarrow> error + string" where
  "py_strip (PStr s) = Inr (strip s)"
| "py_strip (PObject n) = Inl OutsideModel"
| "py_strip v = Inl AttributeError"

section \<open>Files as texts\<close>

text \<open>
  A file opened for reading in text mode hands out its text with every \<^verbatim>\<open>\r\n\<close> and every
  lone \<^verbatim>\<open>\r\<close> turned into \<^verbatim>\<open>\n\<close>; \<^verbatim>\<open>readlines()\<close> cuts the text after each \<^verbatim>\<open>\n\<close> and
  keeps the terminators.
\<close>

fun translate_newlines :: "string \<Rightarrow> string" where
  "translate_newlines [] = []"
| "translate_newlines [c] = (if c = CR then [LF] else [c])"
| "translate_newlines (c # d # cs) =
     (if c = CR then
        (if d = LF then LF # translate_newlines cs else LF # translate_newlines (d # cs))
      else c # translate_newlines (d # cs))"

fun lines_keepends :: "string \<Rightarrow> string list" where
  "lines_keepends [] = []"
| "lines_keepends (c # cs) =
     (if c = LF then [LF] # lines_keepends cs
      else (case lines_keepends cs of [] \<Rightarrow> [[c]] | l # ls \<Rightarrow> (c # l) # ls))"

definition readlines :: "string \<Rightarrow> string list" where
  "readlines text = lines_keepends (translate_newlines text)"

text \<open>The text of the regular file a path names (the empty text otherwise).\<close>

definition file_text :: "world \<Rightarrow> string \<Rightarrow> string" where
  "file_text w p = (case stat w p of Some (RegularFile c) \<Rightarrow> c | _ \<Rightarrow> [])"

text \<open>
  \<^verbatim>\<open>open(path, 'a')\<close>: the file is created when nothing of that name exists and its
  directory does; the answer is the text the file holds. Leaving the \<^verbatim>\<open>with\<close> block
  stores the text with everything written to it, also when the block is left by an
  exception.
\<close>

definition open_append :: "string \<Rightarrow> world \<Rightarrow> (error + string) \<times> world" where
  "open_append path w =
     (if path = [] then (Inl FileNotFoundError, w)
      else if last path = SEP then (Inl IsADirectoryError, w)
      else (case stat w path of
              Some Directory \<Rightarrow> (Inl IsADirectoryError, w)
            | Some (RegularFile c) \<Rightarrow> (Inr c, w)
            | None \<Rightarrow>
                (case parent_ready w path of
                   Some e \<Rightarrow> (Inl e, w)
                 | None \<Rightarrow>
                     (Inr [], w\<lparr>entries := (entries w)(normpath path \<mapsto> RegularFile [])\<rparr>))))"

definition close_file :: "string \<Rightarrow> string \<Rightarrow> world \<Rightarrow> world" where
  "close_file path text w = w\<lparr>entries := (entries w)(normpath path \<mapsto> RegularFile text)\<rparr>"

section \<open>Saving the results\<close>

text \<open>\<^verbatim>\<open>save_as_array\<close>: \<^verbatim>\<open>json.dump([a for a in articles], file)\<close>.\<close>

definition save_as_array :: "string \<Rightarrow> pyval list \<Rightarrow> (error + unit) \<times> string" where
  "save_as_array file articles = json_dump (PList articles) file"

text \<open>
  \<^verbatim>\<open>save_as_separate_line\<close>: for every article, \<^verbatim>\<open>json.dump\<close> and then the line terminator,
  both inside a \<^verbatim>\<open>try\<close> whose bare \<^verbatim>\<open>except\<close> goes on with the next article.
\<close>

fun save_as_separate_line :: "string \<Rightarrow> pyval list \<Rightarrow> string" where
  "save_as_separate_line file [] = file"
| "save_as_separate_line file (article # articles) =
     (case json_dump article file of
        (Inr u, file1) \<Rightarrow> save_as_separate_line (file1 @ [LF]) articles
      | (Inl e, file1) \<Rightarrow> save_as_separate_line file1 articles)"

definition save_result_in_file ::
  "pyval list \<Rightarrow> string \<Rightarrow> string option \<Rightarrow> world \<Rightarrow> (error + unit) \<times> world" where
  "save_result_in_file articles file_path save_format w =
     (case create_folder_directory file_path w of
        (Inl e, w1) \<Rightarrow> (Inl e, w1)
      | (Inr u, w1) \<Rightarrow>
          (case open_append file_path w1 of
             (Inl e, w2) \<Rightarrow> (Inl e, w2)
           | (Inr f, w2) \<Rightarrow>
               (if save_format = Some ''array'' then
                  (case save_as_array f articles of
                     (r, f') \<Rightarrow> (r, close_file file_path f' w2))
                else (Inr (), close_file file_path (save_as_separate_line f articles) w2))))"

section \<open>The class EventRegistryCollector\<close>

text \<open>
  The arguments the four query methods share. A list argument is \<^verbatim>\<open>None\<close> or a list of
  strings; the dates are passed through as they come.
\<close>

record filters =
  "keywords" :: "string list option"
  concepts :: "string list option"
  categories :: "string list option"
  sources :: "string list option"
  languages :: "string list option"
  date_start :: pyval
  date_end :: pyval
  sort_by :: string
  sort_by_asc :: bool
  max_items :: int
  save_to_file :: "string option"
  save_format :: "string option"

text \<open>Truth of an optional list and of an optional string in a condition.\<close>

fun truthy :: "'a list option \<Rightarrow> bool" where
  "truthy None = False"
| "truthy (Some xs) = (xs \<noteq> [])"

definition get_concepts :: "event_registry \<Rightarrow> string list \<Rightarrow> URI list" where
  "get_concepts er cs = map (\<lambda>k. \<lparr>keyword = k, uri = getConceptUri er k\<rparr>) cs"

definition get_categories :: "event_registry \<Rightarrow> string list \<Rightarrow> URI list" where
  "get_categories er cs = map (\<lambda>k. \<lparr>keyword = k, uri = getCategoryUri er k\<rparr>) cs"

definition get_sources :: "event_registry \<Rightarrow> string list \<Rightarrow> URI list" where
  "get_sources er ss = map (\<lambda>k. \<lparr>keyword = k, uri = getSourceUri er k\<rparr>) ss"


text \<open>Lines 257 to 262, the same in the three methods: the filter clauses.\<close>

definition er_keywords :: "filters \<Rightarrow> string query_items option" where
  "er_keywords a = (if truthy (keywords a) then Some (QueryItems_AND (the (keywords a))) else None)"

definition er_concepts :: "event_registry \<Rightarrow> filters \<Rightarrow> string option query_items option" where
  "er_concepts er a =
     (if truthy (concepts a)
      then Some (QueryItems_AND (map get_uri (get_concepts er (the (concepts a))))) else None)"

definition er_categories :: "event_registry \<Rightarrow> filters \<Rightarrow> string option query_items option" where
  "er_categories er a =
     (if truthy (categories a)
      then Some (QueryItems_AND (map get_uri (get_categories er (the (categories a))))) else None)"

definition er_sources :: "event_registry \<Rightarrow> filters \<Rightarrow> string option query_items option" where
  "er_sources er a =
     (if truthy (sources a)
      then Some (QueryItems_OR (map get_uri (get_sources er (the (sources a))))) else None)"

definition er_lang :: "filters \<Rightarrow> string query_items option" where
  "er_lang a = (if truthy (languages a) then Some (QueryItems_OR (the (languages a))) else None)"

text \<open>
  The query object with its keyword arguments, and \<^verbatim>\<open>q.execQuery(self._er, sortBy=...,
  sortByAsc=..., maxItems=...)\<close>: the request is added to the list of executed queries.
\<close>

definition make_request ::
  "query_class \<Rightarrow> event_registry \<Rightarrow> filters \<Rightarrow> pyval \<Rightarrow> request" where
  "make_request cls er a date_start' =
     \<lparr>query_class = cls,
      query = \<lparr>q_keywords = er_keywords a,
               conceptUri = er_concepts er a,
               categoryUri = er_categories er a,
               sourceUri = er_sources er a,
               dateStart = date_start',
               dateEnd = date_end a,
               lang = er_lang a\<rparr>,
      sortBy = sort_by a,
      sortByAsc = sort_by_asc a,
      maxItems = max_items a\<rparr>"

definition run_query :: "event_registry \<Rightarrow> request \<Rightarrow> world \<Rightarrow> pyval list \<times> world" where
  "run_query er r w = (execQuery er r, w\<lparr>executed := executed w @ [r]\<rparr>)"

text \<open>Lines 288 to 292: the results are saved when a file is named, and returned.\<close>

definition save_and_return ::
  "filters \<Rightarrow> pyval list \<Rightarrow> world \<Rightarrow> (error + pyval list) \<times> world" where
  "save_and_return a articles w =
     (if truthy (save_to_file a) then
        (case save_result_in_file articles (the (save_to_file a)) (save_format a) w of
           (Inl e, w1) \<Rightarrow> (Inl e, w1)
         | (Inr u, w1) \<Rightarrow> (Inr articles, w1))
      else (Inr articles, w))"



definition get_event_articles ::
  "event_registry \<Rightarrow> pyval \<Rightarrow> filters \<Rightarrow> world \<Rightarrow> (error + pyval list) \<times> world" where
  "get_event_articles er event_id a w =
     (case run_query er (make_request (QueryEventArticlesIter event_id) er a (date_start a)) w of
        (articles, w1) \<Rightarrow> save_and_return a articles w1)"

text \<open>
  \<^verbatim>\<open>get_event_articles_from_file\<close>. Lines 509 to 517 collect the identifiers, from event
  objects or from plain lines; lines 521 to 534 ask for the articles of one event after
  the other. An exception in either loop ends the call.
\<close>

record event_articles =
  event_id :: string
  articles :: "pyval list"

fun event_ids_of_events :: "string list \<Rightarrow> error + string list" where
  "event_ids_of_events [] = Inr []"
| "event_ids_of_events (line # lines) =
     (case json_loads line of
        Inl e \<Rightarrow> Inl e
      | Inr obj \<Rightarrow>
          (case py_getitem obj ''uri'' of
             Inl e \<Rightarrow> Inl e
           | Inr u \<Rightarrow>
               (case py_strip u of
                  Inl e \<Rightarrow> Inl e
                | Inr i \<Rightarrow>
                    (case event_ids_of_events lines of
                       Inl e \<Rightarrow> Inl e
                     | Inr ids \<Rightarrow> Inr (i # ids)))))"

definition event_path :: "string option \<Rightarrow> string \<Rightarrow> string option" where
  "event_path save_to_folder i =
     (if truthy save_to_folder then Some (the save_to_folder @ ''/'' @ i @ ''.json'') else None)"

fun collect_event_articles ::
  "event_registry \<Rightarrow> filters \<Rightarrow> string option \<Rightarrow> string list \<Rightarrow> world
     \<Rightarrow> (error + event_articles list) \<times> world" where
  "collect_event_articles er a save_to_folder [] w = (Inr [], w)"
| "collect_event_articles er a save_to_folder (i # ids) w =
     (case get_event_articles er (PStr i) (a\<lparr>save_to_file := event_path save_to_folder i\<rparr>) w of
        (Inl e, w1) \<Rightarrow> (Inl e, w1)
      | (Inr found, w1) \<Rightarrow>
          (case collect_event_articles er a save_to_folder ids w1 of
             (Inl e, w2) \<Rightarrow> (Inl e, w2)
           | (Inr rest, w2) \<Rightarrow> (Inr (\<lparr>event_id = i, articles = found\<rparr> # rest), w2)))"

definition get_event_articles_from_file ::
  "event_registry \<Rightarrow> string option \<Rightarrow> string option \<Rightarrow> filters \<Rightarrow> string option \<Rightarrow> world
     \<Rightarrow> (error + event_articles list) \<times> world" where
  "get_event_articles_from_file er event_ids_file event_file_type a save_to_folder w =
     (if \<not> (truthy event_ids_file \<and> os_path_isfile w (the event_ids_file)) then
        (Inl (Exception (''get_event_articles_list: event_ids_file doesn'' @ [CHR 0x27] @ ''t exist'')), w)
      else
        (let lines = readlines (file_text w (the event_ids_file))
         in if length lines = 0 then
              (Inl (Exception ''get_event_articles_list: event_ids_file is empty''), w)
            else
              (case (if event_file_type = Some ''events'' then event_ids_of_events lines
                     else Inr (map strip lines)) of
                 Inl e \<Rightarrow> (Inl e, w)
               | Inr event_ids \<Rightarrow> collect_event_articles er a save_to_folder event_ids w)))"

section \<open>Example objects\<close>

text \<open>
  A client that knows one concept, one category and one source and finds nothing, a file
  system with no entries, and a set of arguments: the concrete inputs of the examples
  further down.
\<close>

definition example_client :: event_registry where
  "example_client =
     \<lparr>getConceptUri = (\<lambda>k. if k = ''Barack Obama''
                            then Some ''http://en.wikipedia.org/wiki/Barack_Obama'' else None),
      getCategoryUri = (\<lambda>k. if k = ''Business'' then Some ''dmoz/Business'' else None),
      getSourceUri = (\<lambda>k. if k = ''BBC'' then Some ''bbc.co.uk'' else None),
      execQuery = (\<lambda>r. [])\<rparr>"

definition empty_world :: world where
  "empty_world = \<lparr>entries = (\<lambda>p. None), executed = []\<rparr>"

text \<open>A file system whose only entry is one regular file with the given text.\<close>

definition world_with_file :: "string \<Rightarrow> string \<Rightarrow> world" where
  "world_with_file p text = \<lparr>entries = (\<lambda>q. if q = p then Some (RegularFile text) else None),
                             executed = []\<rparr>"

text \<open>The last line of a file of saved articles, and of a file of saved events.\<close>

definition example_article_line :: string where
  \<open>example_article_line = ''{"uri": "7301", "date": "2023-05-01", "wgt": 4}'' @ [LF]\<close>




text \<open>A file of plain identifiers.\<close>

definition example_plain_text :: string where
  "example_plain_text = ''e-1'' @ [LF] @ ''e-2'' @ [LF]"

text \<open>Two records as the service returns them.\<close>

definition example_records :: "pyval list" where
  "example_records =
     [PDict [(''uri'', PStr ''7301''), (''date'', PStr ''2023-05-01''), (''wgt'', PInt 4)],
      PDict [(''uri'', PStr ''7302''), (''date'', PStr ''2023-05-02''),
             (''tags'', PList [PStr ''a'', PNone, PBool True, PInt (- 12)])]]"

definition example_filters :: filters where
  "example_filters =
     \<lparr>keywords = Some [''climate'', ''energy''],
      concepts = None,
      categories = Some [],
      sources = Some [''BBC'', ''Unknown Times''],
      languages = Some [''eng''],
      date_start = PStr ''2023-01-01'',
      date_end = PNone,
      sort_by = ''date'',
      sort_by_asc = False,
      max_items = - 1,
      save_to_file = None,
      save_format = None\<rparr>"

section \<open>What the file operations leave alone\<close>

lemma os_mkdir_executed: "executed (snd (os_mkdir name w)) = executed w"
  by (simp add: os_mkdir_def split: option.splits)

lemma os_makedirs_executed: "executed (snd (os_makedirs name w)) = executed w"
proof (induction name w rule: os_makedirs.induct)
  case (1 name w)
  show ?case
  proof (cases "fst (makedirs_split name) \<noteq> [] \<and> snd (makedirs_split name) \<noteq> []
                 \<and> \<not> os_path_exists w (fst (makedirs_split name))")
    case False
    then have "os_makedirs name w = os_mkdir name w"
      by (subst os_makedirs.simps) auto
    then show ?thesis
      by (simp add: os_mkdir_executed)
  next
    case True
    obtain r w1 where rec: "os_makedirs (fst (makedirs_split name)) w = (r, w1)"
      by (cases "os_makedirs (fst (makedirs_split name)) w") auto
    from "1.IH" True rec have w1: "executed w1 = executed w"
      by auto
    have "executed (snd (os_mkdir name w1)) = executed w"
      using w1 by (simp add: os_mkdir_executed)
    with True rec w1 show ?thesis
      by (subst os_makedirs.simps) (auto split: sum.splits)
  qed
qed

lemma create_folder_directory_executed:
  "executed (snd (create_folder_directory path w)) = executed w"
  by (simp add: create_folder_directory_def Let_def os_makedirs_executed)

lemma open_append_executed: "executed (snd (open_append path w)) = executed w"
  by (simp add: open_append_def split: option.splits node.splits)

lemma save_result_in_file_executed:
  "executed (snd (save_result_in_file found file_path fmt w)) = executed w"
proof -
  obtain r1 w1 where c: "create_folder_directory file_path w = (r1, w1)"
    by (cases "create_folder_directory file_path w") auto
  obtain r2 w2 where p: "open_append file_path w1 = (r2, w2)"
    by (cases "open_append file_path w1") auto
  from c have e1: "executed w1 = executed w"
    using create_folder_directory_executed [of file_path w] by simp
  from p have e2: "executed w2 = executed w1"
    using open_append_executed [of file_path w1] by simp
  from c p e1 e2 show ?thesis
    by (auto simp: save_result_in_file_def close_file_def split: sum.splits prod.splits)
qed

lemma save_and_return_executed: "executed (snd (save_and_return a found w)) = executed w"
proof (cases "truthy (save_to_file a)")
  case False
  then show ?thesis by (simp add: save_and_return_def)
next
  case True
  obtain r w1 where s:
    "save_result_in_file found (the (save_to_file a)) (save_format a) w = (r, w1)"
    by (cases "save_result_in_file found (the (save_to_file a)) (save_format a) w") auto
  then have "executed w1 = executed w"
    using save_result_in_file_executed [of found "the (save_to_file a)" "save_format a" w]
    by simp
  with True s show ?thesis
    by (auto simp: save_and_return_def split: sum.splits)
qed



lemma get_event_articles_executed:
  "executed (snd (get_event_articles er i a w)) =
     executed w @ [make_request (QueryEventArticlesIter i) er a (date_start a)]"
  by (simp add: get_event_articles_def run_query_def save_and_return_executed)

section \<open>Equality of URI instances\<close>

lemma py_eq_fields: "py_eq (field_operand x) (field_operand y) = (x = y)"
  by (cases x; cases y) (simp_all add: py_eq.simps)

lemma py_eq_field_instance: "py_eq (field_operand x) (OInstance b) = (x = uri b)"
proof -
  have "py_eq (field_operand x) (OInstance b) = py_eq (field_operand (uri b)) (field_operand x)"
    by (cases x) (simp_all add: py_eq.simps [of "OStr s" "OInstance b" for s]
        py_eq.simps [of ONone "OInstance b"])
  then show ?thesis
    by (auto simp: py_eq_fields)
qed

text \<open>
  C9. Two URI instances are equal exactly when their identifiers are equal, whatever their
  keywords are, and \<^verbatim>\<open>__ne__\<close> answers the opposite of \<^verbatim>\<open>__eq__\<close>.
\<close>

theorem URI_equality_by_identifier:
  "URI_eq a (OInstance b) = (uri a = uri b)
   \<and> URI_ne a (OInstance b) = (uri a \<noteq> uri b)
   \<and> URI_ne a (OInstance b) = (\<not> URI_eq a (OInstance b))"
proof -
  have e: "URI_eq a (OInstance b) = (uri a = uri b)"
    by (simp add: URI_eq_def py_eq_field_instance)
  have "py_eq (OInstance a) (OInstance b) = py_eq (field_operand (uri a)) (OInstance b)"
    by (subst py_eq.simps) simp
  then have n: "URI_ne a (OInstance b) = (uri a \<noteq> uri b)"
    by (simp add: URI_ne_def py_eq_field_instance)
  from e n show ?thesis
    by simp
qed

section \<open>The query that is built\<close>

text \<open>
  C10. \<^verbatim>\<open>get_event_articles\<close> executes one query, for the event it was given, and the
  query's start date is the \<^verbatim>\<open>date_start\<close> argument, whatever the file system holds.
\<close>

theorem get_event_articles_keeps_date_start:
  "\<exists>r. executed (snd (get_event_articles er i a w)) = executed w @ [r]
       \<and> query_class r = QueryEventArticlesIter i
       \<and> dateStart (query r) = date_start a"
  by (simp add: get_event_articles_executed make_request_def)




section \<open>The identifiers file\<close>

text \<open>
  C6. When the path of the identifiers file is \<^verbatim>\<open>None\<close> or empty, names no regular file,
  or names a file without a line, \<^verbatim>\<open>get_event_articles_from_file\<close> raises an exception and
  leaves the state as it was: no query has been executed and no file has been touched.
\<close>

theorem identifiers_file_missing_or_empty:
  assumes "\<not> truthy event_ids_file
           \<or> \<not> os_path_isfile w (the event_ids_file)
           \<or> readlines (file_text w (the event_ids_file)) = []"
  shows "\<exists>msg. get_event_articles_from_file er event_ids_file event_file_type a save_to_folder w
           = (Inl (Exception msg), w)"
  using assms by (auto simp: get_event_articles_from_file_def Let_def)

theorem identifiers_file_missing_or_empty_witness:
  "(\<not> truthy (None :: string option))
   \<and> (\<exists>msg. get_event_articles_from_file example_client None (Some ''plain'') example_filters
          None empty_world = (Inl (Exception msg), empty_world))
   \<and> \<not> os_path_isfile empty_world (the (Some ''ids.txt''))
   \<and> (\<exists>msg. get_event_articles_from_file example_client (Some ''ids.txt'') (Some ''plain'')
          example_filters None empty_world = (Inl (Exception msg), empty_world))
   \<and> readlines (file_text (world_with_file ''ids.txt'' []) (the (Some ''ids.txt''))) = []
   \<and> (\<exists>msg. get_event_articles_from_file example_client (Some ''ids.txt'') (Some ''plain'')
          example_filters None (world_with_file ''ids.txt'' [])
          = (Inl (Exception msg), world_with_file ''ids.txt'' []))"
proof -
  have h1: "\<not> truthy (None :: string option)"
    by simp
  have h2: "\<not> os_path_isfile empty_world (the (Some ''ids.txt''))"
    by (simp add: os_path_isfile_def stat_def empty_world_def normpath_def normpath_step_def)
  have h3: "readlines (file_text (world_with_file ''ids.txt'' []) (the (Some ''ids.txt''))) = []"
    by (simp add: readlines_def file_text_def stat_def world_with_file_def normpath_def
        normpath_step_def)
  from identifiers_file_missing_or_empty [OF disjI1 [OF h1]]
    identifiers_file_missing_or_empty [OF disjI2 [OF disjI1 [OF h2]]]
    identifiers_file_missing_or_empty [OF disjI2 [OF disjI2 [OF h3]]]
    h1 h2 h3
  show ?thesis
    by blast
qed

section \<open>Writing the records\<close>

text \<open>
  With a directory part in the target the directories are made, also nested ones.
\<close>

lemma nested_directories_created:
  "fst (create_folder_directory ''out/2023/articles.json'' empty_world) = Inr ()
   \<and> os_path_isdir (snd (create_folder_directory ''out/2023/articles.json'' empty_world)) ''out''
   \<and> os_path_isdir (snd (create_folder_directory ''out/2023/articles.json'' empty_world))
         ''out/2023''"
  by code_simp

text \<open>
  C5, at the input where the code departs from it. For a target without a directory part
  the computed directory is the empty string, \<^verbatim>\<open>os.path.exists('')\<close> is false and
  \<^verbatim>\<open>os.makedirs('')\<close> raises \<^verbatim>\<open>FileNotFoundError\<close>: the call ends there and nothing is
  written, although the directory of the target, the current one, exists.
\<close>

theorem bare_file_name_raises:
  "save_result_in_file found ''articles.json'' fmt w = (Inl FileNotFoundError, w)"
  by (simp add: save_result_in_file_def create_folder_directory_def normpath_def
      normpath_step_def os_path_exists_def stat_def os_makedirs.simps [of "[]"]
      makedirs_split_def os_path_split_def os_mkdir_def)

text \<open>
  C3, at the input where the code departs from it. The \<^verbatim>\<open>try\<close> with its bare \<^verbatim>\<open>except\<close> is
  there to leave a record out that cannot be serialised. The first record below has a
  value the encoder has no rule for in its second member: \<^verbatim>\<open>json.dump\<close> has written the
  text up to that value when it raises, the \<^verbatim>\<open>except\<close> goes on, and the second record
  continues the same line. The file differs from the one the second record alone gives.
\<close>

theorem failed_record_leaves_partial_line:
  \<open>save_as_separate_line []
      [PDict [(''title'', PStr ''a''), (''tags'', PObject 0)], PDict [(''title'', PStr ''b'')]]
    = ''{"title": "a", "tags": {"title": "b"}'' @ [LF]
   \<and> save_as_separate_line []
      [PDict [(''title'', PStr ''a''), (''tags'', PObject 0)], PDict [(''title'', PStr ''b'')]]
    \<noteq> save_as_separate_line [] [PDict [(''title'', PStr ''b'')]]\<close>
  by (simp add: json_dump_def encode_basestring_ascii_def escape_char_def)

text \<open>The text after the loop over the records, record by record.\<close>

lemma save_as_separate_line_appends:
  "save_as_separate_line fp rs =
     fp @ concat (map (\<lambda>r. if fst (iterencode r) then snd (iterencode r) @ [LF]
                              else snd (iterencode r)) rs)"
proof (induction rs arbitrary: fp)
  case Nil
  show ?case by simp
next
  case (Cons r rs)
  obtain d t where e: "iterencode r = (d, t)"
    by (cases "iterencode r") auto
  show ?case
  proof (cases d)
    case True
    with e have "save_as_separate_line fp (r # rs) = save_as_separate_line ((fp @ t) @ [LF]) rs"
      by (simp add: json_dump_def)
    with e True Cons.IH [of "(fp @ t) @ [LF]"] show ?thesis
      by simp
  next
    case False
    with e have "save_as_separate_line fp (r # rs) = save_as_separate_line (fp @ t) rs"
      by (simp add: json_dump_def)
    with e False Cons.IH [of "fp @ t"] show ?thesis
      by simp
  qed
qed

section \<open>Starting again from the last saved record\<close>








lemma world_with_file_stat:
  "normpath p = p \<Longrightarrow> p \<noteq> ''.'' \<Longrightarrow> p \<noteq> ''/'' \<Longrightarrow> p \<noteq> ''//'' \<Longrightarrow> p \<noteq> [] \<Longrightarrow> stat (world_with_file p t) p = Some (RegularFile t)"
  by (simp add: stat_def world_with_file_def)




section \<open>Identifiers taken from event objects\<close>








section \<open>One query for each identifier\<close>

lemma make_request_save_to_file:
  "make_request cls er (a\<lparr>save_to_file := p\<rparr>) d = make_request cls er a d"
  by (simp add: make_request_def er_keywords_def er_concepts_def er_categories_def
      er_sources_def er_lang_def)

lemma save_and_return_result:
  "fst (save_and_return a found w) = Inr res \<Longrightarrow> res = found"
  by (auto simp: save_and_return_def split: if_splits prod.splits sum.splits)

lemma get_event_articles_result:
  assumes "fst (get_event_articles er i a w) = Inr res"
  shows "res = execQuery er (make_request (QueryEventArticlesIter i) er a (date_start a))"
  using assms save_and_return_result
  by (auto simp: get_event_articles_def run_query_def)

lemma get_event_articles_no_file:
  assumes "\<not> truthy (save_to_file a)"
  shows "get_event_articles er i a w =
           (Inr (execQuery er (make_request (QueryEventArticlesIter i) er a (date_start a))),
            w\<lparr>executed := executed w
                  @ [make_request (QueryEventArticlesIter i) er a (date_start a)]\<rparr>)"
  using assms by (simp add: get_event_articles_def run_query_def save_and_return_def)

text \<open>The loop over the identifiers: one query for each, in their order.\<close>

lemma collect_event_articles_result:
  assumes "fst (collect_event_articles er a save_to_folder ids w) = Inr res"
  shows "res = map (\<lambda>i. \<lparr>event_id = i,
                         articles = execQuery er
                           (make_request (QueryEventArticlesIter (PStr i)) er a (date_start a))\<rparr>) ids
         \<and> executed (snd (collect_event_articles er a save_to_folder ids w)) =
             executed w
               @ map (\<lambda>i. make_request (QueryEventArticlesIter (PStr i)) er a (date_start a)) ids"
  using assms
proof (induction ids arbitrary: w res)
  case Nil
  then show ?case by simp
next
  case (Cons i ids)
  let ?a = "a\<lparr>save_to_file := event_path save_to_folder i\<rparr>"
  obtain x w1 where g: "get_event_articles er (PStr i) ?a w = (x, w1)"
    by (cases "get_event_articles er (PStr i) ?a w") auto
  obtain y w2 where c: "collect_event_articles er a save_to_folder ids w1 = (y, w2)"
    by (cases "collect_event_articles er a save_to_folder ids w1") auto
  from Cons.prems g obtain found where x: "x = Inr found"
    by (cases x) auto
  from Cons.prems g c x obtain rest where y: "y = Inr rest"
    by (cases y) auto
  from g x have f: "found = execQuery er
      (make_request (QueryEventArticlesIter (PStr i)) er a (date_start a))"
    using get_event_articles_result [of er "PStr i" ?a w found]
    by (simp add: make_request_save_to_file)
  from g have e1: "executed w1 = executed w
      @ [make_request (QueryEventArticlesIter (PStr i)) er a (date_start a)]"
    using get_event_articles_executed [of er "PStr i" ?a w]
    by (simp add: make_request_save_to_file)
  from c y Cons.IH [of w1 rest]
  have ih: "rest = map (\<lambda>i. \<lparr>event_id = i,
                         articles = execQuery er
                           (make_request (QueryEventArticlesIter (PStr i)) er a (date_start a))\<rparr>) ids"
    "executed w2 = executed w1
       @ map (\<lambda>i. make_request (QueryEventArticlesIter (PStr i)) er a (date_start a)) ids"
    by simp_all
  from Cons.prems g c x y have r: "res = \<lparr>event_id = i, articles = found\<rparr> # rest"
    by simp
  from g c x y have s: "snd (collect_event_articles er a save_to_folder (i # ids) w) = w2"
    by simp
  from r s f e1 ih show ?case
    by simp
qed

lemma collect_event_articles_no_folder:
  assumes "\<not> truthy save_to_folder"
  shows "collect_event_articles er a save_to_folder ids w =
           (Inr (map (\<lambda>i. \<lparr>event_id = i,
                         articles = execQuery er
                           (make_request (QueryEventArticlesIter (PStr i)) er a (date_start a))\<rparr>) ids),
            w\<lparr>executed := executed w
                  @ map (\<lambda>i. make_request (QueryEventArticlesIter (PStr i)) er a (date_start a)) ids\<rparr>)"
proof (induction ids arbitrary: w)
  case Nil
  show ?case by simp
next
  case (Cons i ids)
  from assms have "event_path save_to_folder i = None"
    by (simp add: event_path_def)
  then show ?case
    by (simp add: get_event_articles_no_file make_request_save_to_file Cons.IH)
qed

text \<open>
  C7. For a file of type \<^verbatim>\<open>'plain'\<close> whose lines, stripped, are \<^verbatim>\<open>e-1\<close> and \<^verbatim>\<open>e-2\<close>: when
  no folder is named the call returns, and whenever the call returns (saving can raise),
  it has executed two queries, for \<^verbatim>\<open>e-1\<close> and then for \<^verbatim>\<open>e-2\<close>, and its result has two
  entries, each identifier with what its query returned, in that order.
\<close>

theorem plain_identifiers_two_queries:
  assumes "f \<noteq> []" and "os_path_isfile w f"
    and "map strip (readlines (file_text w f)) = [''e-1'', ''e-2'']"
  shows "(\<not> truthy save_to_folder \<longrightarrow>
            get_event_articles_from_file er (Some f) (Some ''plain'') a save_to_folder w =
              (Inr [\<lparr>event_id = ''e-1'',
                     articles = execQuery er
                       (make_request (QueryEventArticlesIter (PStr ''e-1'')) er a (date_start a))\<rparr>,
                    \<lparr>event_id = ''e-2'',
                     articles = execQuery er
                       (make_request (QueryEventArticlesIter (PStr ''e-2'')) er a (date_start a))\<rparr>],
               w\<lparr>executed := executed w
                    @ [make_request (QueryEventArticlesIter (PStr ''e-1'')) er a (date_start a),
                       make_request (QueryEventArticlesIter (PStr ''e-2'')) er a (date_start a)]\<rparr>))
         \<and> (fst (get_event_articles_from_file er (Some f) (Some ''plain'') a save_to_folder w)
              = Inr res \<longrightarrow>
            res = [\<lparr>event_id = ''e-1'',
                     articles = execQuery er
                       (make_request (QueryEventArticlesIter (PStr ''e-1'')) er a (date_start a))\<rparr>,
                   \<lparr>event_id = ''e-2'',
                     articles = execQuery er
                       (make_request (QueryEventArticlesIter (PStr ''e-2'')) er a (date_start a))\<rparr>]
            \<and> executed (snd (get_event_articles_from_file er (Some f) (Some ''plain'') a
                  save_to_folder w)) =
                executed w
                  @ [make_request (QueryEventArticlesIter (PStr ''e-1'')) er a (date_start a),
                     make_request (QueryEventArticlesIter (PStr ''e-2'')) er a (date_start a)])"
proof -
  from assms(3) have ne: "readlines (file_text w f) \<noteq> []"
    by auto
  with assms have g: "get_event_articles_from_file er (Some f) (Some ''plain'') a save_to_folder w
      = collect_event_articles er a save_to_folder [''e-1'', ''e-2''] w"
    by (simp add: get_event_articles_from_file_def Let_def)
  show ?thesis
  proof (intro conjI impI)
    assume "\<not> truthy save_to_folder"
    then show "get_event_articles_from_file er (Some f) (Some ''plain'') a save_to_folder w =
              (Inr [\<lparr>event_id = ''e-1'',
                     articles = execQuery er
                       (make_request (QueryEventArticlesIter (PStr ''e-1'')) er a (date_start a))\<rparr>,
                    \<lparr>event_id = ''e-2'',
                     articles = execQuery er
                       (make_request (QueryEventArticlesIter (PStr ''e-2'')) er a (date_start a))\<rparr>],
               w\<lparr>executed := executed w
                    @ [make_request (QueryEventArticlesIter (PStr ''e-1'')) er a (date_start a),
                       make_request (QueryEventArticlesIter (PStr ''e-2'')) er a (date_start a)]\<rparr>)"
      using collect_event_articles_no_folder [of save_to_folder er a "[''e-1'', ''e-2'']" w] g
      by simp
  next
    assume r: "fst (get_event_articles_from_file er (Some f) (Some ''plain'') a save_to_folder w)
              = Inr res"
    with g have "fst (collect_event_articles er a save_to_folder [''e-1'', ''e-2''] w) = Inr res"
      by simp
    from collect_event_articles_result [OF this] g
    show "res = [\<lparr>event_id = ''e-1'',
                     articles = execQuery er
                       (make_request (QueryEventArticlesIter (PStr ''e-1'')) er a (date_start a))\<rparr>,
                   \<lparr>event_id = ''e-2'',
                     articles = execQuery er
                       (make_request (QueryEventArticlesIter (PStr ''e-2'')) er a (date_start a))\<rparr>]"
      by simp
    from collect_event_articles_result [OF \<open>fst (collect_event_articles er a save_to_folder [''e-1'', ''e-2''] w) = Inr res\<close>] g
    show "executed (snd (get_event_articles_from_file er (Some f) (Some ''plain'') a
                  save_to_folder w)) =
                executed w
                  @ [make_request (QueryEventArticlesIter (PStr ''e-1'')) er a (date_start a),
                     make_request (QueryEventArticlesIter (PStr ''e-2'')) er a (date_start a)]"
      by simp
  qed
qed

lemma example_plain_ids: "map strip (readlines example_plain_text) = [''e-1'', ''e-2'']"
  by code_simp

lemma np4: "normpath ''ids.txt'' = ''ids.txt''"
  by code_simp

lemma example_plain_saved:
  "fst (get_event_articles_from_file example_client (Some ''ids.txt'') (Some ''plain'')
          example_filters (Some ''out'') (world_with_file ''ids.txt'' example_plain_text))
     = Inr [\<lparr>event_id = ''e-1'', articles = []\<rparr>, \<lparr>event_id = ''e-2'', articles = []\<rparr>]"
  by code_simp

theorem plain_identifiers_two_queries_witness:
  "map strip (readlines (file_text (world_with_file ''ids.txt'' example_plain_text) ''ids.txt''))
     = [''e-1'', ''e-2'']
   \<and> fst (get_event_articles_from_file example_client (Some ''ids.txt'') (Some ''plain'')
          example_filters None (world_with_file ''ids.txt'' example_plain_text))
     = Inr [\<lparr>event_id = ''e-1'', articles = []\<rparr>, \<lparr>event_id = ''e-2'', articles = []\<rparr>]
   \<and> map query_class (executed (snd (get_event_articles_from_file example_client
          (Some ''ids.txt'') (Some ''plain'') example_filters None
          (world_with_file ''ids.txt'' example_plain_text))))
     = [QueryEventArticlesIter (PStr ''e-1''), QueryEventArticlesIter (PStr ''e-2'')]
   \<and> map query_class (executed (snd (get_event_articles_from_file example_client
          (Some ''ids.txt'') (Some ''plain'') example_filters (Some ''out'')
          (world_with_file ''ids.txt'' example_plain_text))))
     = [QueryEventArticlesIter (PStr ''e-1''), QueryEventArticlesIter (PStr ''e-2'')]"
proof -
  let ?w = "world_with_file ''ids.txt'' example_plain_text"
  have s: "stat ?w ''ids.txt'' = Some (RegularFile example_plain_text)"
    by (rule world_with_file_stat) (simp_all add: np4)
  have h1: "''ids.txt'' \<noteq> []"
    by simp
  have h2: "os_path_isfile ?w ''ids.txt''"
    using s by (simp add: os_path_isfile_def)
  have h3: "map strip (readlines (file_text ?w ''ids.txt'')) = [''e-1'', ''e-2'']"
    using s by (simp add: file_text_def example_plain_ids)
  have e: "executed ?w = []"
    by (simp add: world_with_file_def)
  have x: "execQuery example_client = (\<lambda>r. [])"
    by (simp add: example_client_def)
  have t: "\<not> truthy (None :: string option)"
    by simp
  from plain_identifiers_two_queries [OF h1 h2 h3, where er = example_client
      and a = example_filters and save_to_folder = None] t
  have a: "get_event_articles_from_file example_client (Some ''ids.txt'') (Some ''plain'')
             example_filters None ?w =
           (Inr [\<lparr>event_id = ''e-1'', articles = []\<rparr>, \<lparr>event_id = ''e-2'', articles = []\<rparr>],
            ?w\<lparr>executed := executed ?w
                @ [make_request (QueryEventArticlesIter (PStr ''e-1'')) example_client
                     example_filters (date_start example_filters),
                   make_request (QueryEventArticlesIter (PStr ''e-2'')) example_client
                     example_filters (date_start example_filters)]\<rparr>)"
    unfolding x by blast
  from plain_identifiers_two_queries [OF h1 h2 h3, where er = example_client
      and a = example_filters and save_to_folder = "Some ''out''"
      and res = "[\<lparr>event_id = ''e-1'', articles = []\<rparr>, \<lparr>event_id = ''e-2'', articles = []\<rparr>]"]
    example_plain_saved
  have b: "executed (snd (get_event_articles_from_file example_client (Some ''ids.txt'')
             (Some ''plain'') example_filters (Some ''out'') ?w)) =
           executed ?w
             @ [make_request (QueryEventArticlesIter (PStr ''e-1'')) example_client
                  example_filters (date_start example_filters),
                make_request (QueryEventArticlesIter (PStr ''e-2'')) example_client
                  example_filters (date_start example_filters)]"
    by blast
  from h3 a b e show ?thesis
    by (simp add: make_request_def)
qed

section \<open>The decoder reads what the encoder writes\<close>

text \<open>
  The text \<^verbatim>\<open>json.dump\<close> writes for a value it can serialise is read back by
  \<^verbatim>\<open>json.loads\<close> as that value. The proof goes through the characters of a string, the
  digits of a number, and then through the value by the recursion of the encoder.
\<close>

lemma hexval_hexdigit_all: "\<forall>k \<in> set [0..<16]. hexval (hexdigit k) = Some k"
  by code_simp

lemma hexval_hexdigit: "k < 16 \<Longrightarrow> hexval (hexdigit k) = Some k"
  using hexval_hexdigit_all by simp

lemma hexdigit_printable_all:
  "\<forall>k \<in> set [0..<16]. 32 \<le> (of_char (hexdigit k) :: nat) \<and> (of_char (hexdigit k) :: nat) \<le> 126"
  by code_simp

lemma hexdigit_printable:
  "k < 16 \<Longrightarrow> 32 \<le> (of_char (hexdigit k) :: nat) \<and> (of_char (hexdigit k) :: nat) \<le> 126"
  using hexdigit_printable_all by simp

lemma hexval_zero: "hexval (CHR ''0'') = Some 0"
  by (simp add: hexval_def)

lemma of_char_lt_256: "(of_char (c :: char) :: nat) < 256"
  by (cases c) (simp add: of_char_def)

lemma scanstring_escape_char:
  "scanstring (escape_char c @ tail) =
     (case scanstring tail of Inl e \<Rightarrow> Inl e | Inr (t, r) \<Rightarrow> Inr (c # t, r))"
proof -
  have n1: "(of_char c :: nat) div 16 < 16"
    using of_char_lt_256 [of c] by arith
  have n2: "(of_char c :: nat) mod 16 < 16"
    by simp
  have r: "char_of (16 * ((of_char c :: nat) div 16) + (of_char c :: nat) mod 16) = c"
    by simp
  show ?thesis
    using r by (auto simp: escape_char_def unescape_def hexval_zero hexval_hexdigit [OF n1]
        hexval_hexdigit [OF n2] split: sum.splits)
qed


lemma scanstring_escaped:
  "scanstring (concat (map escape_char s) @ DQUOTE # rest) = Inr (s, rest)"
  by (induction s) (simp_all add: scanstring_escape_char)

definition printable :: "char \<Rightarrow> bool" where
  "printable c = (32 \<le> (of_char c :: nat) \<and> (of_char c :: nat) \<le> 126)"

lemma escape_char_printable: "ch \<in> set (escape_char c) \<Longrightarrow> printable ch"
proof -
  have n1: "(of_char c :: nat) div 16 < 16"
    using of_char_lt_256 [of c] by arith
  have n2: "(of_char c :: nat) mod 16 < 16"
    by simp
  assume "ch \<in> set (escape_char c)"
  then show ?thesis
    using hexdigit_printable [OF n1] hexdigit_printable [OF n2]
    by (auto simp: escape_char_def printable_def split: if_splits)
qed

lemma encode_basestring_ascii_printable:
  "ch \<in> set (encode_basestring_ascii s) \<Longrightarrow> printable ch"
  by (auto simp: encode_basestring_ascii_def printable_def dest: escape_char_printable)

lemma is_digit_digit_char: "n < 10 \<Longrightarrow> is_digit (digit_char n)"
  by (simp add: is_digit_def digit_char_def)

lemma digit_char_value: "n < 10 \<Longrightarrow> (of_char (digit_char n) :: nat) - 48 = n"
  by (simp add: digit_char_def)

lemma char_of_48: "char_of (48 :: nat) = CHR ''0''"
  by code_simp

lemma digit_char_zero: "n < 10 \<Longrightarrow> (digit_char n = CHR ''0'') = (n = 0)"
proof
  assume "n < 10" "digit_char n = CHR ''0''"
  then have "(of_char (digit_char n) :: nat) = of_char (CHR ''0'')" by simp
  with \<open>n < 10\<close> show "n = 0" by (simp add: digit_char_def)
next
  assume "n = 0" then show "digit_char n = CHR ''0''" by (simp add: digit_char_def char_of_48)
qed

lemma nat_repr_digits: "c \<in> set (nat_repr n) \<Longrightarrow> is_digit c"
proof (induction n arbitrary: c rule: nat_repr.induct)
  case (1 n)
  show ?case
  proof (cases "n < 10")
    case True
    with "1.prems" show ?thesis
      by (subst (asm) nat_repr.simps) (simp add: is_digit_digit_char)
  next
    case False
    have "is_digit (digit_char (n mod 10))"
      by (simp add: is_digit_digit_char)
    with False "1.prems" "1.IH" show ?thesis
      by (subst (asm) nat_repr.simps) auto
  qed
qed

lemma nat_repr_nonempty: "nat_repr n \<noteq> []"
  by (subst nat_repr.simps) simp

lemma digits_value_snoc:
  "digits_value (ds @ [c]) = 10 * digits_value ds + ((of_char c :: nat) - 48)"
  by (simp add: digits_value_def)

lemma digits_value_nat_repr: "digits_value (nat_repr n) = n"
proof (induction n rule: nat_repr.induct)
  case (1 n)
  show ?case
  proof (cases "n < 10")
    case True
    then show ?thesis
      by (subst nat_repr.simps) (simp add: digits_value_def digit_char_value)
  next
    case False
    with "1.IH" show ?thesis
      by (subst nat_repr.simps) (simp add: digits_value_snoc digit_char_value)
  qed
qed

lemma nat_repr_hd_zero: "(hd (nat_repr n) = CHR ''0'') = (n = 0)"
proof (induction n rule: nat_repr.induct)
  case (1 n)
  show ?case
  proof (cases "n < 10")
    case True
    then show ?thesis
      by (subst nat_repr.simps) (simp add: digit_char_zero)
  next
    case False
    then have "n div 10 \<noteq> 0" by simp
    with False "1.IH" show ?thesis
      by (subst nat_repr.simps) (simp add: nat_repr_nonempty)
  qed
qed

lemma nat_repr_zero: "nat_repr 0 = ''0''"
  by (subst nat_repr.simps) (simp add: digit_char_def char_of_48)


definition number_end :: "string \<Rightarrow> bool" where
  "number_end rest =
     (case rest of
        [] \<Rightarrow> True
      | c # cs \<Rightarrow> \<not> is_digit c \<and> c \<noteq> CHR ''.'' \<and> c \<noteq> CHR ''e'' \<and> c \<noteq> CHR ''E'')"

lemma number_end_no_float: "number_end rest \<Longrightarrow> \<not> float_follows rest"
  by (auto simp: number_end_def float_follows_def split: list.splits)

lemma takeWhile_digits:
  assumes "\<forall>c \<in> set ds. is_digit c" and "number_end rest"
  shows "takeWhile is_digit (ds @ rest) = ds"
proof -
  from assms(2) have "takeWhile is_digit rest = []"
    by (cases rest) (auto simp: number_end_def)
  with assms(1) show ?thesis
    by (simp add: takeWhile_append2)
qed

lemma integer_part:
  assumes "number_end rest" and "nat_repr n = d # ds"
  shows "(if d = CHR ''0'' then [d] else d # takeWhile is_digit (ds @ rest)) = d # ds"
proof (cases "d = CHR ''0''")
  case True
  with assms(2) have "n = 0"
    using nat_repr_hd_zero [of n] by simp
  with assms(2) True show ?thesis
    by (simp add: nat_repr_zero)
next
  case False
  have "\<forall>c \<in> set ds. is_digit c"
    using nat_repr_digits [of _ n] assms(2) by simp
  with assms(1) have "takeWhile is_digit (ds @ rest) = ds"
    by (rule takeWhile_digits [rotated])
  with False show ?thesis
    by (simp only: if_False)
qed

lemma match_number_digits:
  assumes "number_end rest" and "body = nat_repr n @ rest"
  shows "(case body of
            [] \<Rightarrow> Inl JSONDecodeError
          | d # ds \<Rightarrow>
              (if \<not> is_digit d then Inl JSONDecodeError
               else
                 (let integer = (if d = CHR ''0'' then [d] else d # takeWhile is_digit ds);
                      rest' = drop (length integer) body
                  in if float_follows rest' then Inl OutsideModel
                     else Inr (PInt (if negative then - int (digits_value integer)
                                     else int (digits_value integer)), rest'))))
         = Inr (PInt (if negative then - int n else int n), rest)"
proof -
  obtain d ds where r: "nat_repr n = d # ds"
    using nat_repr_nonempty [of n] by (cases "nat_repr n") auto
  have dd: "is_digit d"
    using nat_repr_digits [of d n] r by simp
  have ip: "(if d = CHR ''0'' then [d] else d # takeWhile is_digit (ds @ rest)) = d # ds"
    using integer_part [OF assms(1) r] .
  have dv: "digits_value (d # ds) = n"
    using digits_value_nat_repr [of n] r by simp
  show ?thesis
    using dd dv number_end_no_float [OF assms(1)]
    by (simp only: assms(2) r append_Cons list.case ip Let_def length_Cons drop_Suc_Cons)
       (simp add: r [symmetric])
qed

lemma not_digit_minus: "\<not> is_digit (CHR ''-'')"
  by (simp add: is_digit_def)

lemma match_number_int_repr:
  assumes "number_end rest"
  shows "match_number (int_repr i @ rest) = Inr (PInt i, rest)"
proof (cases "i < 0")
  case True
  then have s: "int_repr i @ rest = CHR ''-'' # (nat_repr (nat (- i)) @ rest)"
    by (simp add: int_repr_def)
  from True have v: "- int (nat (- i)) = i"
    by simp
  show ?thesis
    unfolding s match_number_def
    using match_number_digits [OF assms, of "drop 1 (CHR ''-'' # nat_repr (nat (- i)) @ rest)"
        "nat (- i)" True] v
    by (simp add: Let_def)
next
  case False
  then have s: "int_repr i @ rest = nat_repr (nat i) @ rest"
    by (simp add: int_repr_def)
  obtain d ds where r: "nat_repr (nat i) = d # ds"
    using nat_repr_nonempty [of "nat i"] by (cases "nat_repr (nat i)") auto
  have "is_digit d"
    using nat_repr_digits [of d "nat i"] r by simp
  then have "d \<noteq> CHR ''-''"
    using not_digit_minus by auto
  then have t: "take 1 (nat_repr (nat i) @ rest) \<noteq> ''-''"
    by (simp add: r)
  from False have v: "int (nat i) = i"
    by simp
  show ?thesis
    unfolding s match_number_def
    using match_number_digits [OF assms, of "nat_repr (nat i) @ rest" "nat i" False] v t
    by (simp add: Let_def)
qed


definition value_start :: "char \<Rightarrow> bool" where
  "value_start c = (\<not> is_json_ws c \<and> c \<noteq> CHR '']'' \<and> c \<noteq> CHR ''}'')"

lemma skip_ws_start: "\<not> is_json_ws c \<Longrightarrow> skip_ws (c # cs) = c # cs"
  by (simp add: skip_ws_def)

lemma skip_ws_space: "\<not> is_json_ws c \<Longrightarrow> skip_ws (CHR '' '' # c # cs) = c # cs"
  by (simp add: skip_ws_def is_json_ws_def)

lemma is_digit_start: "is_digit c \<Longrightarrow> value_start c"
  by (auto simp: is_digit_def value_start_def is_json_ws_def)

lemma int_repr_start:
  "\<exists>c cs. int_repr i = c # cs
     \<and> (is_digit c \<or> (c = CHR ''-'' \<and> (\<exists>d ds. cs = d # ds \<and> is_digit d)))"
proof (cases "i < 0")
  case True
  obtain d ds where "nat_repr (nat (- i)) = d # ds"
    using nat_repr_nonempty [of "nat (- i)"] by (cases "nat_repr (nat (- i))") auto
  moreover from this have "is_digit d"
    using nat_repr_digits [of d "nat (- i)"] by simp
  ultimately show ?thesis
    using True by (simp add: int_repr_def)
next
  case False
  obtain d ds where "nat_repr (nat i) = d # ds"
    using nat_repr_nonempty [of "nat i"] by (cases "nat_repr (nat i)") auto
  moreover from this have "is_digit d"
    using nat_repr_digits [of d "nat i"] by simp
  ultimately show ?thesis
    using False by (simp add: int_repr_def)
qed

lemma parse_value_number:
  assumes "is_digit c \<or> (c = CHR ''-'' \<and> (\<exists>d ds. cs = d # ds \<and> is_digit d))"
  shows "parse_value (Suc m) (c # cs) = match_number (c # cs)"
proof -
  have ne: "c \<noteq> DQUOTE" "c \<noteq> CHR ''{''" "c \<noteq> CHR ''[''" "c \<noteq> CHR ''n''"
    "c \<noteq> CHR ''t''" "c \<noteq> CHR ''f''" "c \<noteq> CHR ''N''" "c \<noteq> CHR ''I''"
    using assms by (auto simp: is_digit_def)
  have inf: "take 9 (c # cs) \<noteq> ''-Infinity''"
  proof
    assume e: "take 9 (c # cs) = ''-Infinity''"
    then have c: "c = CHR ''-''"
      by simp
    with assms obtain d ds where d: "cs = d # ds" "is_digit d"
      by (auto simp: is_digit_def)
    with e have "d = CHR ''I''"
      by simp
    with d show False
      by (simp add: is_digit_def)
  qed
  have t: "take 4 (c # cs) \<noteq> ''null''" "take 4 (c # cs) \<noteq> ''true''"
    "take 5 (c # cs) \<noteq> ''false''" "take 3 (c # cs) \<noteq> ''NaN''"
    "take 8 (c # cs) \<noteq> ''Infinity''"
    using ne by simp_all
  show ?thesis
    using ne(1-3) t inf by (simp only: parse_value.simps list.case if_False simp_thms)
qed

lemma parse_value_int_repr:
  assumes "number_end rest"
  shows "parse_value (Suc m) (int_repr i @ rest) = Inr (PInt i, rest)"
proof -
  obtain c cs where r: "int_repr i = c # cs"
    and "is_digit c \<or> (c = CHR ''-'' \<and> (\<exists>d ds. cs = d # ds \<and> is_digit d))"
    using int_repr_start [of i] by blast
  then have "is_digit c \<or> (c = CHR ''-'' \<and> (\<exists>d ds. cs @ rest = d # ds \<and> is_digit d))"
    by auto
  then have "parse_value (Suc m) (c # cs @ rest) = match_number (c # cs @ rest)"
    by (rule parse_value_number)
  with r show ?thesis
    using match_number_int_repr [OF assms, of i] by simp
qed

lemma parse_value_string:
  "parse_value (Suc m) (encode_basestring_ascii s @ rest) = Inr (PStr s, rest)"
  by (simp add: encode_basestring_ascii_def scanstring_escaped)


lemma number_end_delimiters:
  "number_end (CHR '','' # r)" "number_end (CHR '']'' # r)" "number_end (CHR ''}'' # r)"
  "number_end (LF # r)" "number_end []"
  by (simp_all add: number_end_def is_digit_def)

lemma parse_value_open_list:
  assumes "value_start c"
  shows "parse_value (Suc m) (CHR ''['' # c # cs) =
           (case parse_array m (c # cs) of
              Inl e \<Rightarrow> Inl e
            | Inr (vs, r) \<Rightarrow> Inr (PList vs, r))"
  using assms by (simp add: value_start_def skip_ws_start)

lemma parse_value_open_dict:
  "parse_value (Suc m) (CHR ''{'' # DQUOTE # cs) =
     (case parse_object m (DQUOTE # cs) of
        Inl e \<Rightarrow> Inl e
      | Inr (kvs, r) \<Rightarrow> Inr (PDict kvs, r))"
  by (simp add: skip_ws_start is_json_ws_def)

lemma parse_array_last:
  assumes "parse_value m s = Inr (x, CHR '']'' # rest)"
  shows "parse_array (Suc m) s = Inr ([x], rest)"
  using assms by (simp add: skip_ws_start is_json_ws_def)

lemma parse_array_more:
  assumes "parse_value m s = Inr (x, CHR '','' # CHR '' '' # c # cs)" and "value_start c"
  shows "parse_array (Suc m) s =
           (case parse_array m (c # cs) of
              Inl e \<Rightarrow> Inl e
            | Inr (vs, r) \<Rightarrow> Inr (x # vs, r))"
  using assms by (simp add: skip_ws_start skip_ws_space is_json_ws_def value_start_def)

lemma parse_object_key:
  "parse_object (Suc m) (encode_basestring_ascii k @ CHR '':'' # CHR '' '' # c # cs) =
     (if is_json_ws c then parse_object (Suc m)
         (encode_basestring_ascii k @ CHR '':'' # CHR '' '' # c # cs)
      else
        (case parse_value m (c # cs) of
           Inl e \<Rightarrow> Inl e
         | Inr (v, r2) \<Rightarrow>
             (case skip_ws r2 of
                [] \<Rightarrow> Inl JSONDecodeError
              | d # r3 \<Rightarrow>
                  (if d = CHR ''}'' then Inr ([(k, v)], r3)
                   else if d = CHR '','' then
                     (case parse_object m (skip_ws r3) of
                        Inl e \<Rightarrow> Inl e
                      | Inr (kvs, r4) \<Rightarrow> Inr ((k, v) # kvs, r4))
                   else Inl JSONDecodeError))))"
  by (simp add: encode_basestring_ascii_def scanstring_escaped skip_ws_start skip_ws_space
      is_json_ws_def)

lemma parse_object_last:
  assumes "parse_value m (c # cs) = Inr (v, CHR ''}'' # rest)" and "value_start c"
  shows "parse_object (Suc m) (encode_basestring_ascii k @ CHR '':'' # CHR '' '' # c # cs)
           = Inr ([(k, v)], rest)"
  using assms
  by (subst parse_object_key) (simp add: value_start_def skip_ws_start is_json_ws_def)

lemma parse_object_more:
  assumes "parse_value m (c # cs) = Inr (v, CHR '','' # CHR '' '' # DQUOTE # u)"
    and "value_start c"
  shows "parse_object (Suc m) (encode_basestring_ascii k @ CHR '':'' # CHR '' '' # c # cs)
           = (case parse_object m (DQUOTE # u) of
                Inl e \<Rightarrow> Inl e
              | Inr (kvs, r) \<Rightarrow> Inr ((k, v) # kvs, r))"
  using assms
  by (subst parse_object_key)
     (simp add: value_start_def skip_ws_start skip_ws_space is_json_ws_def)

lemma iterencode_start:
  assumes "fst (iterencode v)"
  shows "\<exists>c cs. snd (iterencode v) = c # cs \<and> value_start c"
proof (cases v)
  case (PInt i)
  then show ?thesis
    using int_repr_start [of i] is_digit_start
    by (auto simp: value_start_def is_json_ws_def)
qed (use assms in \<open>auto simp: value_start_def is_json_ws_def encode_basestring_ascii_def
       split: prod.splits if_splits\<close>)

lemma iterencode_list_start:
  assumes "fst (iterencode_list xs)" and "xs \<noteq> []"
  shows "\<exists>c cs. snd (iterencode_list xs) = c # cs \<and> value_start c"
proof -
  from assms(2) obtain x xs' where xs: "xs = x # xs'"
    by (cases xs) auto
  obtain d t where e: "iterencode x = (d, t)"
    by (cases "iterencode x") auto
  with assms(1) xs have d: "d"
    by (auto split: if_splits)
  with e obtain c cs where t: "t = c # cs" "value_start c"
    using iterencode_start [of x] by auto
  with assms(1) xs e d show ?thesis
    by (auto split: if_splits prod.splits)
qed


lemma iterencode_dict_start:
  assumes "kvs \<noteq> []"
  shows "\<exists>u. snd (iterencode_dict kvs) = DQUOTE # u"
proof -
  from assms obtain kv kvs' where "kvs = kv # kvs'"
    by (cases kvs) auto
  then show ?thesis
    by (auto simp: encode_basestring_ascii_def split: prod.splits)
qed

lemma parse_value_constants:
  "parse_value (Suc m) (''null'' @ rest) = Inr (PNone, rest)"
  "parse_value (Suc m) (''true'' @ rest) = Inr (PBool True, rest)"
  "parse_value (Suc m) (''false'' @ rest) = Inr (PBool False, rest)"
  "parse_value (Suc m) (''[]'' @ rest) = Inr (PList [], rest)"
  "parse_value (Suc m) (''{}'' @ rest) = Inr (PDict [], rest)"
  by (simp_all add: skip_ws_def is_json_ws_def)

lemma decode_encoded:
  "\<forall>n rest. fst (iterencode v) \<longrightarrow> length (snd (iterencode v)) \<le> n \<longrightarrow> number_end rest
      \<longrightarrow> parse_value n (snd (iterencode v) @ rest) = Inr (v, rest)"
  and "\<forall>n rest. xs \<noteq> [] \<longrightarrow> fst (iterencode_list xs)
      \<longrightarrow> length (snd (iterencode_list xs)) < n
      \<longrightarrow> parse_array n (snd (iterencode_list xs) @ CHR '']'' # rest) = Inr (xs, rest)"
  and "\<forall>n rest. kvs \<noteq> [] \<longrightarrow> fst (iterencode_dict kvs)
      \<longrightarrow> length (snd (iterencode_dict kvs)) < n
      \<longrightarrow> parse_object n (snd (iterencode_dict kvs) @ CHR ''}'' # rest) = Inr (kvs, rest)"
proof (induction v and xs and kvs rule: iterencode_iterencode_list_iterencode_dict.induct)
  case 1
  show ?case
  proof (intro allI impI)
    fix n rest
    assume "length (snd (iterencode PNone)) \<le> n"
    then obtain m where "n = Suc m" by (cases n) auto
    then show "parse_value n (snd (iterencode PNone) @ rest) = Inr (PNone, rest)"
      by (simp only: iterencode.simps snd_conv parse_value_constants)
  qed
next
  case (2 b)
  show ?case
  proof (intro allI impI)
    fix n rest
    assume "length (snd (iterencode (PBool b))) \<le> n"
    then obtain m where "n = Suc m" by (cases n; cases b) auto
    then show "parse_value n (snd (iterencode (PBool b)) @ rest) = Inr (PBool b, rest)"
      by (cases b) (simp_all only: iterencode.simps snd_conv parse_value_constants if_True if_False)
  qed
next
  case (3 i)
  show ?case
  proof (intro allI impI)
    fix n rest
    assume "length (snd (iterencode (PInt i))) \<le> n" and ne: "number_end rest"
    moreover have "int_repr i \<noteq> []"
      using int_repr_start [of i] by auto
    ultimately obtain m where "n = Suc m" by (cases n) auto
    then show "parse_value n (snd (iterencode (PInt i)) @ rest) = Inr (PInt i, rest)"
      using parse_value_int_repr [OF ne] by simp
  qed
next
  case (4 s)
  show ?case
  proof (intro allI impI)
    fix n rest
    assume "length (snd (iterencode (PStr s))) \<le> n"
    then obtain m where "n = Suc m"
      by (cases n) (auto simp: encode_basestring_ascii_def)
    then show "parse_value n (snd (iterencode (PStr s)) @ rest) = Inr (PStr s, rest)"
      using parse_value_string by simp
  qed
next
  case (5 xs)
  show ?case
  proof (intro allI impI)
    fix n rest
    assume d: "fst (iterencode (PList xs))"
      and l: "length (snd (iterencode (PList xs))) \<le> n"
    show "parse_value n (snd (iterencode (PList xs)) @ rest) = Inr (PList xs, rest)"
    proof (cases "xs = []")
      case True
      with l obtain m where "n = Suc m" by (cases n) auto
      with True show ?thesis
        using parse_value_constants(4) by simp
    next
      case False
      obtain dd t where e: "iterencode_list xs = (dd, t)"
        by (cases "iterencode_list xs") auto
      with d False have dd: "dd" by simp
      with e False obtain c cs where t: "t = c # cs" "value_start c"
        using iterencode_list_start [of xs] by auto
      from e dd False have whole: "snd (iterencode (PList xs)) = CHR ''['' # t @ '']''"
        by simp
      with l obtain m where n: "n = Suc m" "length t < m"
        by (cases n) auto
      from "5.IH" False e dd n(2)
      have "parse_array m (t @ CHR '']'' # rest) = Inr (xs, rest)"
        by auto
      with t have "parse_array m (c # cs @ CHR '']'' # rest) = Inr (xs, rest)"
        by simp
      then have "parse_value (Suc m) (CHR ''['' # c # cs @ CHR '']'' # rest)
                   = Inr (PList xs, rest)"
        using parse_value_open_list [OF t(2), of m "cs @ CHR '']'' # rest"] by simp
      with whole t n show ?thesis
        by simp
    qed
  qed
next
  case (6 kvs)
  show ?case
  proof (intro allI impI)
    fix n rest
    assume d: "fst (iterencode (PDict kvs))"
      and l: "length (snd (iterencode (PDict kvs))) \<le> n"
    show "parse_value n (snd (iterencode (PDict kvs)) @ rest) = Inr (PDict kvs, rest)"
    proof (cases "kvs = []")
      case True
      with l obtain m where "n = Suc m" by (cases n) auto
      with True show ?thesis
        using parse_value_constants(5) by simp
    next
      case False
      obtain dd t where e: "iterencode_dict kvs = (dd, t)"
        by (cases "iterencode_dict kvs") auto
      with d False have dd: "dd" by simp
      from e False obtain u where t: "t = DQUOTE # u"
        using iterencode_dict_start [of kvs] by auto
      from e dd False have whole: "snd (iterencode (PDict kvs)) = CHR ''{'' # t @ ''}''"
        by simp
      with l obtain m where n: "n = Suc m" "length t < m"
        by (cases n) auto
      from "6.IH" False e dd n(2)
      have "parse_object m (t @ CHR ''}'' # rest) = Inr (kvs, rest)"
        by auto
      with t have "parse_object m (DQUOTE # u @ CHR ''}'' # rest) = Inr (kvs, rest)"
        by simp
      then have "parse_value (Suc m) (CHR ''{'' # DQUOTE # u @ CHR ''}'' # rest)
                   = Inr (PDict kvs, rest)"
        using parse_value_open_dict [of m "u @ CHR ''}'' # rest"] by simp
      with whole t n show ?thesis
        by simp
    qed
  qed
next
  case (7 n)
  show ?case by simp
next
  case 8
  show ?case by simp
next
  case (9 x xs)
  show ?case
  proof (intro allI impI)
    fix n rest
    assume d: "fst (iterencode_list (x # xs))"
      and l: "length (snd (iterencode_list (x # xs))) < n"
    obtain dx tx where ex: "iterencode x = (dx, tx)"
      by (cases "iterencode x") auto
    with d have dx: "dx" by (auto split: if_splits)
    with ex obtain c cs where tx: "tx = c # cs" "value_start c"
      using iterencode_start [of x] by auto
    from l obtain m where n: "n = Suc m" by (cases n) auto
    show "parse_array n (snd (iterencode_list (x # xs)) @ CHR '']'' # rest)
            = Inr (x # xs, rest)"
    proof (cases "xs = []")
      case True
      with ex dx have whole: "snd (iterencode_list (x # xs)) = tx" by simp
      with l n have "length tx \<le> m" by simp
      with "9.IH"(1) ex dx
      have "parse_value m (tx @ CHR '']'' # rest) = Inr (x, CHR '']'' # rest)"
        using number_end_delimiters(2) [of rest] by auto
      then have "parse_array (Suc m) (tx @ CHR '']'' # rest) = Inr ([x], rest)"
        by (rule parse_array_last)
      with whole n True show ?thesis by simp
    next
      case False
      obtain du u where eu: "iterencode_list xs = (du, u)"
        by (cases "iterencode_list xs") auto
      with d ex dx False have du: "du" by simp
      with eu False obtain c' cs' where u: "u = c' # cs'" "value_start c'"
        using iterencode_list_start [of xs] by auto
      from ex dx eu False have whole: "snd (iterencode_list (x # xs)) = tx @ '', '' @ u"
        by simp
      with l n have lt: "length tx \<le> m" "length u < m" by simp_all
      from "9.IH"(1) ex dx lt(1)
      have "parse_value m (tx @ (CHR '','' # CHR '' '' # u @ CHR '']'' # rest))
              = Inr (x, CHR '','' # CHR '' '' # u @ CHR '']'' # rest)"
        using number_end_delimiters(1) [of "CHR '' '' # u @ CHR '']'' # rest"] by auto
      with u have pv: "parse_value m (tx @ (CHR '','' # CHR '' '' # u @ CHR '']'' # rest))
              = Inr (x, CHR '','' # CHR '' '' # c' # (cs' @ CHR '']'' # rest))"
        by simp
      from "9.IH"(2) [OF ex [symmetric]] dx False eu du lt(2)
      have "parse_array m (u @ CHR '']'' # rest) = Inr (xs, rest)"
        by auto
      with u have "parse_array m (c' # (cs' @ CHR '']'' # rest)) = Inr (xs, rest)"
        by simp
      with parse_array_more [OF pv u(2)]
      have "parse_array (Suc m) (tx @ (CHR '','' # CHR '' '' # u @ CHR '']'' # rest))
              = Inr (x # xs, rest)"
        by simp
      with whole n show ?thesis by simp
    qed
  qed
next
  case 10
  show ?case by simp
next
  case (11 kv kvs)
  show ?case
  proof (intro allI impI)
    fix n rest
    assume d: "fst (iterencode_dict (kv # kvs))"
      and l: "length (snd (iterencode_dict (kv # kvs))) < n"
    obtain dv tv where ev: "iterencode (snd kv) = (dv, tv)"
      by (cases "iterencode (snd kv)") auto
    with d have dv: "dv" by (auto split: if_splits)
    with ev obtain c cs where tv: "tv = c # cs" "value_start c"
      using iterencode_start [of "snd kv"] by auto
    from l obtain m where n: "n = Suc m" by (cases n) auto
    show "parse_object n (snd (iterencode_dict (kv # kvs)) @ CHR ''}'' # rest)
            = Inr (kv # kvs, rest)"
    proof (cases "kvs = []")
      case True
      with ev dv have whole: "snd (iterencode_dict (kv # kvs))
          = encode_basestring_ascii (fst kv) @ '': '' @ tv" by simp
      with l n have "length tv \<le> m" by simp
      with "11.IH"(1) ev dv
      have "parse_value m (tv @ CHR ''}'' # rest) = Inr (snd kv, CHR ''}'' # rest)"
        using number_end_delimiters(3) [of rest] by auto
      with tv have "parse_value m (c # (cs @ CHR ''}'' # rest)) = Inr (snd kv, CHR ''}'' # rest)"
        by simp
      from parse_object_last [OF this tv(2), of "fst kv"]
      have "parse_object (Suc m)
              (encode_basestring_ascii (fst kv) @ CHR '':'' # CHR '' '' # c # cs @ CHR ''}'' # rest)
            = Inr ([kv], rest)"
        by simp
      with whole tv n True show ?thesis by simp
    next
      case False
      obtain du u where eu: "iterencode_dict kvs = (du, u)"
        by (cases "iterencode_dict kvs") auto
      with d ev dv False have du: "du" by simp
      from eu False obtain u' where u: "u = DQUOTE # u'"
        using iterencode_dict_start [of kvs] by auto
      from ev dv eu False have whole: "snd (iterencode_dict (kv # kvs))
          = encode_basestring_ascii (fst kv) @ '': '' @ tv @ '', '' @ u"
        by simp
      with l n have lt: "length tv \<le> m" "length u < m" by simp_all
      from "11.IH"(1) ev dv lt(1)
      have "parse_value m (tv @ (CHR '','' # CHR '' '' # u @ CHR ''}'' # rest))
              = Inr (snd kv, CHR '','' # CHR '' '' # u @ CHR ''}'' # rest)"
        using number_end_delimiters(1) [of "CHR '' '' # u @ CHR ''}'' # rest"] by auto
      with u tv have pv: "parse_value m (c # (cs @ CHR '','' # CHR '' '' # u @ CHR ''}'' # rest))
              = Inr (snd kv, CHR '','' # CHR '' '' # DQUOTE # (u' @ CHR ''}'' # rest))"
        by simp
      from "11.IH"(2) [OF ev [symmetric]] dv False eu du lt(2)
      have "parse_object m (u @ CHR ''}'' # rest) = Inr (kvs, rest)"
        by auto
      with u have "parse_object m (DQUOTE # (u' @ CHR ''}'' # rest)) = Inr (kvs, rest)"
        by simp
      with parse_object_more [OF pv tv(2), of "fst kv"]
      have "parse_object (Suc m) (encode_basestring_ascii (fst kv) @ CHR '':'' # CHR '' ''
               # c # (cs @ CHR '','' # CHR '' '' # u @ CHR ''}'' # rest))
              = Inr (kv # kvs, rest)"
        by simp
      with whole tv n show ?thesis by simp
    qed
  qed
qed

lemma is_digit_printable: "is_digit c \<Longrightarrow> printable c"
  by (simp add: is_digit_def printable_def)

lemma int_repr_printable: "c \<in> set (int_repr i) \<Longrightarrow> printable c"
  using nat_repr_digits is_digit_printable
  by (auto simp: int_repr_def printable_def split: if_splits)

lemma printable_literals:
  "printable (CHR ''['')" "printable (CHR '']'')" "printable (CHR ''{'')" "printable (CHR ''}'')"
  "printable (CHR '','')" "printable (CHR '' '')" "printable (CHR '':'')"
  "\<forall>c \<in> set ''null''. printable c" "\<forall>c \<in> set ''true''. printable c"
  "\<forall>c \<in> set ''false''. printable c"
  by (simp_all add: printable_def)

lemma iterencode_printable:
  "\<forall>c \<in> set (snd (iterencode v)). printable c"
  and "\<forall>c \<in> set (snd (iterencode_list xs)). printable c"
  and "\<forall>c \<in> set (snd (iterencode_dict kvs)). printable c"
proof (induction v and xs and kvs rule: iterencode_iterencode_list_iterencode_dict.induct)
  case (3 i)
  show ?case using int_repr_printable by simp
next
  case (4 s)
  show ?case using encode_basestring_ascii_printable by simp
next
  case (5 xs)
  then show ?case
    using printable_literals by (auto split: prod.splits)
next
  case (6 kvs)
  then show ?case
    using printable_literals by (auto split: prod.splits)
next
  case (9 x xs)
  obtain d t where e: "iterencode x = (d, t)" by (cases "iterencode x") auto
  obtain d' u where e': "iterencode_list xs = (d', u)" by (cases "iterencode_list xs") auto
  from "9.IH"(1) e have t: "\<forall>c \<in> set t. printable c" by simp
  show ?case
  proof (cases "d \<and> xs \<noteq> []")
    case True
    with "9.IH"(2) [OF e [symmetric]] e' have "\<forall>c \<in> set u. printable c" by simp
    with t e e' True show ?thesis
      using printable_literals by auto
  next
    case False
    with t e show ?thesis by auto
  qed
next
  case (11 kv kvs)
  obtain d t where e: "iterencode (snd kv) = (d, t)" by (cases "iterencode (snd kv)") auto
  obtain d' u where e': "iterencode_dict kvs = (d', u)" by (cases "iterencode_dict kvs") auto
  from "11.IH"(1) e have t: "\<forall>c \<in> set t. printable c" by simp
  have k: "\<forall>c \<in> set (encode_basestring_ascii (fst kv)). printable c"
    using encode_basestring_ascii_printable by blast
  show ?case
  proof (cases "d \<and> kvs \<noteq> []")
    case True
    with "11.IH"(2) [OF e [symmetric]] e' have "\<forall>c \<in> set u. printable c" by simp
    with t k e e' True show ?thesis
      using printable_literals by auto
  next
    case False
    with t k e show ?thesis
      using printable_literals by auto
  qed
qed (simp_all add: printable_def)

lemma json_loads_encoded:
  assumes "fst (iterencode v)"
  shows "json_loads (snd (iterencode v) @ [LF]) = Inr v"
proof -
  obtain c cs where t: "snd (iterencode v) = c # cs" "value_start c"
    using iterencode_start [OF assms] by blast
  then have s: "skip_ws (snd (iterencode v) @ [LF]) = snd (iterencode v) @ [LF]"
    by (simp add: skip_ws_start value_start_def)
  have l: "length (snd (iterencode v)) \<le> Suc (length (snd (iterencode v) @ [LF]))"
    by simp
  have pv: "parse_value (Suc (length (snd (iterencode v) @ [LF]))) (snd (iterencode v) @ [LF])
          = Inr (v, [LF])"
    using decode_encoded(1) [of v, rule_format, OF assms l number_end_delimiters(4) [of "[]"]] .
  have e: "skip_ws [LF] = []"
    by (simp add: skip_ws_def is_json_ws_def)
  show ?thesis
    unfolding json_loads_def s pv using e by simp
qed

lemma translate_newlines_id: "CR \<notin> set s \<Longrightarrow> translate_newlines s = s"
  by (induction s rule: translate_newlines.induct) auto

lemma lines_keepends_line:
  "LF \<notin> set l \<Longrightarrow> lines_keepends (l @ LF # s) = (l @ [LF]) # lines_keepends s"
  by (induction l) auto

lemma lines_keepends_concat:
  "\<forall>l \<in> set ls. LF \<notin> set l \<Longrightarrow>
     lines_keepends (concat (map (\<lambda>l. l @ [LF]) ls)) = map (\<lambda>l. l @ [LF]) ls"
  by (induction ls) (simp_all add: lines_keepends_line)

lemma printable_not_newline: "printable c \<Longrightarrow> c \<noteq> LF \<and> c \<noteq> CR"
  by (auto simp: printable_def)

lemma readlines_concat:
  assumes "\<forall>l \<in> set ls. \<forall>c \<in> set l. printable c"
  shows "readlines (concat (map (\<lambda>l. l @ [LF]) ls)) = map (\<lambda>l. l @ [LF]) ls"
proof -
  from assms have "CR \<notin> set (concat (map (\<lambda>l. l @ [LF]) ls))"
    using printable_not_newline by auto
  moreover from assms have "\<forall>l \<in> set ls. LF \<notin> set l"
    using printable_not_newline by blast
  ultimately show ?thesis
    by (simp add: readlines_def translate_newlines_id lines_keepends_concat)
qed

section \<open>Lines that can be read back\<close>

lemma os_mkdir_file_text: "file_text (snd (os_mkdir name w)) p = file_text w p"
  by (auto simp: os_mkdir_def file_text_def stat_def Let_def
      split: option.splits node.splits if_splits)

lemma os_makedirs_file_text: "file_text (snd (os_makedirs name w)) p = file_text w p"
proof (induction name w rule: os_makedirs.induct)
  case (1 name w)
  show ?case
  proof (cases "fst (makedirs_split name) \<noteq> [] \<and> snd (makedirs_split name) \<noteq> []
                 \<and> \<not> os_path_exists w (fst (makedirs_split name))")
    case False
    then have "os_makedirs name w = os_mkdir name w"
      by (subst os_makedirs.simps) auto
    then show ?thesis
      by (simp add: os_mkdir_file_text)
  next
    case True
    obtain r w1 where rec: "os_makedirs (fst (makedirs_split name)) w = (r, w1)"
      by (cases "os_makedirs (fst (makedirs_split name)) w") auto
    from "1.IH" True rec have w1: "file_text w1 p = file_text w p"
      by auto
    have "file_text (snd (os_mkdir name w1)) p = file_text w p"
      using w1 by (simp add: os_mkdir_file_text)
    with True rec w1 show ?thesis
      by (subst os_makedirs.simps) (auto split: sum.splits)
  qed
qed

lemma create_folder_directory_file_text:
  "file_text (snd (create_folder_directory path w)) p = file_text w p"
  by (simp add: create_folder_directory_def Let_def os_makedirs_file_text)

lemma open_append_text:
  assumes "open_append p w = (Inr f, w2)"
  shows "f = file_text w p \<and> file_text (close_file p t w2) p = t"
  using assms
  by (auto simp: open_append_def file_text_def stat_def close_file_def Let_def
      split: option.splits node.splits if_splits)

lemma save_result_in_file_text:
  assumes "fst (save_result_in_file rs p fmt w) = Inr ()" and "fmt \<noteq> Some ''array''"
  shows "file_text (snd (save_result_in_file rs p fmt w)) p
           = save_as_separate_line (file_text w p) rs"
proof -
  obtain r1 w1 where c: "create_folder_directory p w = (r1, w1)"
    by (cases "create_folder_directory p w") auto
  obtain r2 w2 where a: "open_append p w1 = (r2, w2)"
    by (cases "open_append p w1") auto
  from assms(1) c obtain u where r1: "r1 = Inr u"
    by (cases r1) (auto simp: save_result_in_file_def)
  from assms(1) c a r1 obtain f where r2: "r2 = Inr f"
    by (cases r2) (auto simp: save_result_in_file_def)
  from c have t1: "file_text w1 p = file_text w p"
    using create_folder_directory_file_text [of p w p] by simp
  from a r2 have f: "f = file_text w1 p"
    and cl: "file_text (close_file p (save_as_separate_line f rs) w2) p
               = save_as_separate_line f rs"
    using open_append_text [of p w1 f w2] by auto
  from c a r1 r2 assms(2)
  have "snd (save_result_in_file rs p fmt w) = close_file p (save_as_separate_line f rs) w2"
    by (simp add: save_result_in_file_def)
  with cl f t1 show ?thesis
    by simp
qed

lemma serialised_lines:
  assumes "\<forall>r \<in> set rs. fst (iterencode r)"
  shows "readlines (save_as_separate_line [] rs) = map (\<lambda>r. snd (iterencode r) @ [LF]) rs"
proof -
  from assms have "save_as_separate_line [] rs
      = concat (map (\<lambda>l. l @ [LF]) (map (\<lambda>r. snd (iterencode r)) rs))"
    by (simp add: save_as_separate_line_appends comp_def cong: map_cong)
  moreover have "\<forall>l \<in> set (map (\<lambda>r. snd (iterencode r)) rs). \<forall>c \<in> set l. printable c"
    using iterencode_printable(1) by auto
  ultimately show ?thesis
    using readlines_concat [of "map (\<lambda>r. snd (iterencode r)) rs"]
    by (simp add: comp_def)
qed

text \<open>
  C4. When every one of the records can be serialised and they are written in line format
  to an empty text (directly, or by \<^verbatim>\<open>save_result_in_file\<close> to a path that names no file
  or an empty one, when that call returns), the text has as many lines as there are
  records, and \<^verbatim>\<open>json.loads\<close> reads the lines, one by one and in order, as the records
  that were written: a record that is a dictionary comes back as that JSON object.
\<close>

theorem line_format_round_trip:
  assumes "\<forall>r \<in> set rs. fst (iterencode r)"
  shows "length (readlines (save_as_separate_line [] rs)) = length rs
         \<and> map json_loads (readlines (save_as_separate_line [] rs)) = map Inr rs
         \<and> (file_text w p = [] \<and> fmt \<noteq> Some ''array''
              \<and> fst (save_result_in_file rs p fmt w) = Inr ()
            \<longrightarrow> length (readlines (file_text (snd (save_result_in_file rs p fmt w)) p))
                  = length rs
                \<and> map json_loads (readlines (file_text (snd (save_result_in_file rs p fmt w)) p))
                  = map Inr rs)"
proof -
  have l: "readlines (save_as_separate_line [] rs) = map (\<lambda>r. snd (iterencode r) @ [LF]) rs"
    using serialised_lines [OF assms] .
  have m: "map json_loads (map (\<lambda>r. snd (iterencode r) @ [LF]) rs) = map Inr rs"
    using assms by (simp add: json_loads_encoded)
  have a: "length (readlines (save_as_separate_line [] rs)) = length rs"
    by (simp add: l)
  have b: "map json_loads (readlines (save_as_separate_line [] rs)) = map Inr rs"
    by (simp only: l m)
  have c: "file_text w p = [] \<and> fmt \<noteq> Some ''array''
              \<and> fst (save_result_in_file rs p fmt w) = Inr ()
           \<Longrightarrow> file_text (snd (save_result_in_file rs p fmt w)) p = save_as_separate_line [] rs"
    using save_result_in_file_text [of rs p fmt w] by simp
  from a b c show ?thesis
    by simp
qed


lemma example_records_serialised: "\<forall>r \<in> set example_records. fst (iterencode r)"
  by code_simp

lemma example_records_text:
  \<open>save_as_separate_line [] example_records =
     example_article_line
       @ ''{"uri": "7302", "date": "2023-05-02", "tags": ["a", null, true, -12]}'' @ [LF]\<close>
  by code_simp

lemma example_records_saved:
  "fst (save_result_in_file example_records ''out/articles.json'' None empty_world) = Inr ()"
  by code_simp

lemma example_target_absent: "file_text empty_world ''out/articles.json'' = []"
  by code_simp

theorem line_format_round_trip_witness:
  "map (\<lambda>r. fst (iterencode r)) example_records = [True, True]
   \<and> length (readlines (save_as_separate_line [] example_records)) = length example_records
   \<and> map json_loads (readlines (save_as_separate_line [] example_records))
       = map Inr example_records
   \<and> fst (save_result_in_file example_records ''out/articles.json'' None empty_world) = Inr ()
   \<and> map json_loads (readlines (file_text
         (snd (save_result_in_file example_records ''out/articles.json'' None empty_world))
         ''out/articles.json''))
       = map Inr example_records"
  using line_format_round_trip [OF example_records_serialised,
      of empty_world "''out/articles.json''" None]
    example_records_serialised example_records_saved example_target_absent
  by (simp add: example_records_def)

end
